theory Spec2Isabelle
  imports Main "HOL-Library.Sublist"
begin

section \<open>Python values used by the pipe\<close>

text \<open>
  A Python \<open>str\<close> is modelled as a \<open>string\<close>, one \<open>char\<close> per code point; the model
  therefore covers the strings whose code points are below 256. On those, the regular
  expression class \<open>\d\<close> is exactly \<open>0\<close>..\<open>9\<close>, \<open>.\<close> is every character but the line
  feed, and the whitespace of \<open>str.split()\<close> is the set \<open>is_space\<close> below.
\<close>

datatype error =
    ValueError
  | TypeError
  | AttributeError
  | KeyError
  | EnvironmentError
  | FileNotFoundError
  | YAMLError
  | HTTPError
  | BadRequestError
  | JSONDecodeError
  | OtherError string

type_synonym 'a result = "error + 'a"

text \<open>
  What \<open>json_repair.loads\<close> and \<open>yaml.safe_load\<close> return: \<open>None\<close>, a bool, a number,
  a string, a list or a dict. A dict keeps its insertion order, so it is an association
  list. Numbers are integers here (only whether a number is zero is ever looked at).
\<close>

datatype json =
    JNull
  | JBool bool
  | JNum int
  | JStr string
  | JArr "json list"
  | JObj "(string \<times> json) list"

text \<open>Truth value of a Python object, as \<open>if x:\<close> tests it.\<close>

fun truthy :: "json \<Rightarrow> bool" where
  "truthy JNull = False"
| "truthy (JBool b) = b"
| "truthy (JNum n) = (n \<noteq> 0)"
| "truthy (JStr s) = (s \<noteq> [])"
| "truthy (JArr xs) = (xs \<noteq> [])"
| "truthy (JObj kvs) = (kvs \<noteq> [])"

text \<open>\<open>len(x)\<close>: defined on strings, lists and dicts, a \<open>TypeError\<close> otherwise.\<close>

fun py_len :: "json \<Rightarrow> nat result" where
  "py_len (JStr s) = Inr (length s)"
| "py_len (JArr xs) = Inr (length xs)"
| "py_len (JObj kvs) = Inr (length kvs)"
| "py_len _ = Inl TypeError"

text \<open>\<open>d.get(k)\<close>: the value of a dict, \<open>None\<close> for a missing key, and an
  \<open>AttributeError\<close> on every object that is not a dict (\<open>None\<close> included).\<close>

fun py_get :: "json \<Rightarrow> string \<Rightarrow> json result" where
  "py_get (JObj kvs) k = Inr (case map_of kvs k of None \<Rightarrow> JNull | Some v \<Rightarrow> v)"
| "py_get _ k = Inl AttributeError"

text \<open>\<open>d.items()\<close>, with the same \<open>AttributeError\<close> off dicts.\<close>

fun py_items :: "json \<Rightarrow> (string \<times> json) list result" where
  "py_items (JObj kvs) = Inr kvs"
| "py_items _ = Inl AttributeError"

text \<open>\<open>d.update(other)\<close>: a key already present keeps its place and takes the new
  value, a new key is appended.\<close>

fun dict_set :: "(string \<times> json) list \<Rightarrow> string \<Rightarrow> json \<Rightarrow> (string \<times> json) list" where
  "dict_set [] k v = [(k, v)]"
| "dict_set ((k', v') # kvs) k v =
     (if k' = k then (k, v) # kvs else (k', v') # dict_set kvs k v)"

fun dict_update :: "(string \<times> json) list \<Rightarrow> (string \<times> json) list \<Rightarrow> (string \<times> json) list" where
  "dict_update d [] = d"
| "dict_update d ((k, v) # kvs) = dict_update (dict_set d k v) kvs"

text \<open>An optional string inside an f-string: \<open>None\<close> prints as \<open>None\<close>.\<close>

fun fmt :: "string option \<Rightarrow> string" where
  "fmt None = ''None''"
| "fmt (Some s) = s"

fun json_of_opt :: "string option \<Rightarrow> json" where
  "json_of_opt None = JNull"
| "json_of_opt (Some s) = JStr s"

subsection \<open>Strings\<close>

definition is_digit :: "char \<Rightarrow> bool" where
  "is_digit c = (let n = (of_char c :: nat) in 48 \<le> n \<and> n \<le> 57)"

definition is_space :: "char \<Rightarrow> bool" where
  "is_space c =
     (let n = (of_char c :: nat)
      in (9 \<le> n \<and> n \<le> 13) \<or> (28 \<le> n \<and> n \<le> 32) \<or> n = 133 \<or> n = 160)"

definition digit_val :: "char \<Rightarrow> nat" where
  "digit_val c = (of_char c :: nat) - 48"

text \<open>The value of a run of decimal digits, most significant first.\<close>

definition decimal :: "string \<Rightarrow> nat" where
  "decimal ds = foldl (\<lambda>n c. 10 * n + digit_val c) 0 ds"

text \<open>
  \<open>s.split(sep)\<close> for a non-empty separator: scan from the left; where the separator
  starts, close the current piece and go on behind the separator (occurrences do not
  overlap). \<open>acc\<close> holds the current piece, reversed. There is always a last piece, so
  the result is never empty.
\<close>

function split_from :: "string \<Rightarrow> string \<Rightarrow> string \<Rightarrow> string list" where
  "split_from sep acc [] = [rev acc]"
| "split_from sep acc (c # cs) =
     (if sep \<noteq> [] \<and> prefix sep (c # cs)
      then rev acc # split_from sep [] (drop (length sep) (c # cs))
      else split_from sep (c # acc) cs)"
  by pat_completeness auto
termination
  by (relation "measure (\<lambda>(sep, acc, s). length s)") auto

text \<open>\<open>s.count(sep)\<close>: the number of non-overlapping occurrences found by the same scan.\<close>

function count_from :: "string \<Rightarrow> string \<Rightarrow> nat" where
  "count_from sep [] = 0"
| "count_from sep (c # cs) =
     (if sep \<noteq> [] \<and> prefix sep (c # cs)
      then Suc (count_from sep (drop (length sep) (c # cs)))
      else count_from sep cs)"
  by pat_completeness auto
termination
  by (relation "measure (\<lambda>(sep, s). length s)") auto

text \<open>The number of positions of \<open>s\<close> at which \<open>sep\<close> starts (overlaps counted).\<close>

fun occurrences :: "string \<Rightarrow> string \<Rightarrow> nat" where
  "occurrences sep [] = 0"
| "occurrences sep (c # cs) = (if prefix sep (c # cs) then 1 else 0) + occurrences sep cs"

text \<open>\<open>s.split()\<close>, the separator \<open>None\<close>: the maximal runs of non-whitespace.\<close>

fun split_space :: "string \<Rightarrow> string \<Rightarrow> string list" where
  "split_space acc [] = (if acc = [] then [] else [rev acc])"
| "split_space acc (c # cs) =
     (if is_space c then (if acc = [] then [] else [rev acc]) @ split_space [] cs
      else split_space (c # acc) cs)"

text \<open>\<open>s.split(sep)\<close> itself: an empty separator is a \<open>ValueError\<close>.\<close>

definition str_split :: "string \<Rightarrow> string option \<Rightarrow> string list result" where
  "str_split s sep =
     (case sep of
        None \<Rightarrow> Inr (split_space [] s)
      | Some d \<Rightarrow> if d = [] then Inl ValueError else Inr (split_from d [] s))"

text \<open>\<open>sep.join(xs)\<close>.\<close>

fun join :: "string \<Rightarrow> string list \<Rightarrow> string" where
  "join sep [] = []"
| "join sep [x] = x"
| "join sep (x # y # ys) = x @ sep @ join sep (y # ys)"

text \<open>\<open>delimiter + diff\<close>: adding a string to \<open>None\<close> is a \<open>TypeError\<close>.\<close>

fun str_add :: "string option \<Rightarrow> string \<Rightarrow> string result" where
  "str_add None s = Inl TypeError"
| "str_add (Some d) s = Inr (d @ s)"

text \<open>Evaluating a list of results in order, stopping at the first error.\<close>

fun sequence :: "'a result list \<Rightarrow> 'a list result" where
  "sequence [] = Inr []"
| "sequence (Inl e # rs) = Inl e"
| "sequence (Inr x # rs) = (case sequence rs of Inl e \<Rightarrow> Inl e | Inr xs \<Rightarrow> Inr (x # xs))"

section \<open>BitbucketApiService\<close>

definition DIFF_DELIMITER :: string where
  "DIFF_DELIMITER = ''diff --git a/''"

definition BITBUCKET_API_BASE_URL :: string where
  "BITBUCKET_API_BASE_URL = ''https://api.bitbucket.org/2.0''"

text \<open>
  \<open>fetch_diffs(diffs, filenames, delimiter)\<close>. The two list comprehensions are kept as
  they are: with file names, one element per pair of a piece and a file name that the
  piece starts with; without (an empty list or \<open>None\<close>, both false in \<open>if filenames\<close>),
  one element per piece. \<open>diffs.split(delimiter)\<close> is evaluated first, then
  \<open>delimiter + diff\<close> for each element that is produced.
\<close>

definition fetch_diffs :: "string \<Rightarrow> string list \<Rightarrow> string option \<Rightarrow> string list result" where
  "fetch_diffs diffs filenames delimiter =
     (case str_split diffs delimiter of
        Inl e \<Rightarrow> Inl e
      | Inr pieces \<Rightarrow>
          if filenames \<noteq> []
          then sequence [str_add delimiter diff.
                           diff \<leftarrow> pieces, filename \<leftarrow> filenames, prefix filename diff]
          else sequence [str_add delimiter diff. diff \<leftarrow> pieces])"

text \<open>Requests carry the credentials chosen by \<open>resolve_auth\<close>.\<close>

datatype auth = HTTPBasicAuth string string | TokenAuth string

text \<open>
  The two bodies sent to the comments endpoint:
  \<open>{'inline': {'to': line, 'path': path}, 'content': {'raw': content}}\<close> and
  \<open>{'content': {'raw': summary}}\<close>.
\<close>

datatype payload =
    InlineComment int string json
  | SummaryComment json

record BitbucketApiService =
  auth :: auth
  workspace :: "string option"
  repo_slug :: "string option"

section \<open>The collaborators and the trace of a run\<close>

datatype level = WARNING | INFO

text \<open>The \<open>logger.warning\<close> and \<open>logger.info\<close> lines, each with the values it formats
  (\<open>logger.debug\<close> lines are left out).\<close>

datatype log_msg =
    ExecutingThePipe
  | NoFilesForCodereview "string option"
  | FilesWithDiffsCount nat "string set"
  | ClientParameters "(string \<times> json) list option"
  | TokensMoreThenAllowed int int
  | PipeIsStopped
  | ConfigurationModel "string option"
  | CompletionParameters "(string \<times> json) list option"
  | ConfigurationMessages "(string \<times> string) list list"
  | ProcessingChatGPT
  | ProcessingTakes
  | CompletionTokens
  | SuggestionsCount nat
  | CommentedFilesCount nat "string set"
  | SuccessfullyAdded string

text \<open>What a run does to the outside, in order: the two kinds of Bitbucket request,
  the completion request, and the log lines.\<close>

datatype event =
    HttpGet string
  | HttpPost string payload
  | ChatCompletion "(string \<times> json) list"
  | Log level log_msg

text \<open>
  Everything outside the program is a parameter of the model:
  \<^item> \<open>http_get\<close>: \<open>requests.request\<close> followed by \<open>raise_for_status\<close>, giving the
    response text or the error raised;
  \<^item> \<open>http_post\<close>: the same for a comment, followed by \<open>response.json()\<close>; the callers
    discard the JSON, so only success or the error raised is kept;
  \<^item> \<open>path_exists\<close>, \<open>yaml_safe_load\<close>: the file system and \<open>yaml.safe_load\<close>. The
    parameter files are YAML mappings with string keys, or empty (\<open>None\<close>); other
    documents are outside the model;
  \<^item> \<open>OpenAI\<close>: the client's constructor, applied to its keyword arguments;
  \<^item> \<open>chat_completions_create\<close>: the completion request, giving the text content of
    the first choice;
  \<^item> \<open>json_repair_loads\<close>: the repairing JSON parser;
  \<^item> \<open>encoding_for_model\<close>, \<open>get_encoding\<close>: tiktoken; an encoding is given by the
    number of tokens of a text, or the error \<open>encode\<close> raises on it;
  \<^item> \<open>str_list\<close>: Python's \<open>str\<close> of a list of strings;
  \<^item> \<open>int_max_str_digits\<close>: the interpreter's limit on the digits \<open>int\<close> converts
    (0 for none);
  \<^item> \<open>DEFAULT_SYSTEM_PROMPT_FOR_CODE_REVIEW\<close>: the fixed instruction, whose text has
    characters beyond code point 255.
\<close>

record world =
  http_get :: "auth \<Rightarrow> string \<Rightarrow> string result"
  http_post :: "auth \<Rightarrow> string \<Rightarrow> payload \<Rightarrow> unit result"
  path_exists :: "string \<Rightarrow> bool"
  yaml_safe_load :: "string \<Rightarrow> (string \<times> json) list option result"
  OpenAI :: "(string \<times> json) list \<Rightarrow> unit result"
  chat_completions_create :: "(string \<times> json) list \<Rightarrow> (string \<times> json) list \<Rightarrow> string result"
  json_repair_loads :: "string \<Rightarrow> json result"
  encoding_for_model :: "string option \<Rightarrow> (string \<Rightarrow> nat result) result"
  get_encoding :: "string \<Rightarrow> (string \<Rightarrow> nat result) result"
  str_list :: "string list \<Rightarrow> string"
  int_max_str_digits :: nat
  DEFAULT_SYSTEM_PROMPT_FOR_CODE_REVIEW :: string

text \<open>\<open>os.environ\<close>.\<close>

type_synonym env = "string \<rightharpoonup> string"

text \<open>A computation gives a value or raises, and leaves the events it caused, also
  when it raises.\<close>

type_synonym 'a io = "'a result \<times> event list"

definition ret :: "'a \<Rightarrow> 'a io" where
  "ret x = (Inr x, [])"

definition raise :: "error \<Rightarrow> 'a io" where
  "raise e = (Inl e, [])"

definition lift :: "'a result \<Rightarrow> 'a io" where
  "lift r = (r, [])"

definition emit :: "event \<Rightarrow> unit io" where
  "emit ev = (Inr (), [ev])"

definition io_bind :: "'a io \<Rightarrow> ('a \<Rightarrow> 'b io) \<Rightarrow> 'b io" where
  "io_bind m f =
     (case m of
        (Inl e, t) \<Rightarrow> (Inl e, t)
      | (Inr x, t) \<Rightarrow> (case f x of (r, t') \<Rightarrow> (r, t @ t')))"

text \<open>\<open>if x:\<close> on an optional string: \<open>None\<close> and the empty string are false.\<close>

fun truthy_opt :: "string option \<Rightarrow> bool" where
  "truthy_opt None = False"
| "truthy_opt (Some s) = (s \<noteq> [])"

subsection \<open>int()\<close>

definition strip :: "string \<Rightarrow> string" where
  "strip s = dropWhile is_space (rev (dropWhile is_space (rev s)))"

text \<open>Decimal digits, where single underscores may stand between two digits.\<close>

fun valid_digits :: "string \<Rightarrow> bool" where
  "valid_digits [] = False"
| "valid_digits [c] = is_digit c"
| "valid_digits (c # d # cs) =
     (is_digit c \<and> (if d = CHR ''_'' then valid_digits cs else valid_digits (d # cs)))"

text \<open>\<open>int(s)\<close> on a string: surrounding whitespace and a sign are allowed; anything
  else, or more digits than the limit, is a \<open>ValueError\<close>.\<close>

definition py_int :: "nat \<Rightarrow> string \<Rightarrow> int result" where
  "py_int limit s =
     (let t = strip s;
          neg = (case t of c # _ \<Rightarrow> c = CHR ''-'' | [] \<Rightarrow> False);
          body = (case t of c # r \<Rightarrow> if c = CHR ''-'' \<or> c = CHR ''+'' then r else t | [] \<Rightarrow> t);
          ds = filter is_digit body
      in if \<not> valid_digits body then Inl ValueError
         else if limit \<noteq> 0 \<and> limit < length ds then Inl ValueError
         else Inr (if neg then - int (decimal ds) else int (decimal ds)))"

subsection \<open>The Bitbucket requests\<close>

definition get_pull_request_diffs :: "world \<Rightarrow> BitbucketApiService \<Rightarrow> string \<Rightarrow> string io" where
  "get_pull_request_diffs w self pull_request_id =
     (let url_diff = BITBUCKET_API_BASE_URL @ ''/repositories/'' @ fmt (workspace self) @ ''/''
                       @ fmt (repo_slug self) @ ''/pullrequests/'' @ pull_request_id @ ''/diff''
      in io_bind (emit (HttpGet url_diff)) (\<lambda>_. lift (http_get w (auth self) url_diff)))"

definition add_comment :: "world \<Rightarrow> BitbucketApiService \<Rightarrow> string \<Rightarrow> payload \<Rightarrow> unit io" where
  "add_comment w self pull_request_id payload =
     (let url_comment = BITBUCKET_API_BASE_URL @ ''/repositories/'' @ fmt (workspace self) @ ''/''
                          @ fmt (repo_slug self) @ ''/pullrequests/'' @ pull_request_id @ ''/comments''
      in io_bind (emit (HttpPost url_comment payload))
           (\<lambda>_. lift (http_post w (auth self) url_comment payload)))"

section \<open>AiService\<close>

text \<open>\<open>AiService(**parameters)\<close> builds the OpenAI client from the keyword arguments;
  the service is represented by the arguments its client was built from.\<close>

definition AiService :: "world \<Rightarrow> (string \<times> json) list \<Rightarrow> (string \<times> json) list io" where
  "AiService w parameters =
     io_bind (lift (OpenAI w parameters)) (\<lambda>_. ret parameters)"

text \<open>\<open>create_completion(**completion_params)\<close>: \<open>model\<close> and \<open>messages\<close> are taken out,
  the rest is passed on next to \<open>response_format\<close>; giving \<open>response_format\<close> twice is a
  \<open>TypeError\<close> of the call.\<close>

definition create_completion :: "world \<Rightarrow> (string \<times> json) list \<Rightarrow> (string \<times> json) list \<Rightarrow> string io" where
  "create_completion w client completion_params =
     (let kwargs = filter (\<lambda>(k, v). k \<noteq> ''model'' \<and> k \<noteq> ''messages'') completion_params;
          request = [(''response_format'', JObj [(''type'', JStr ''json_object'')])]
                    @ filter (\<lambda>(k, v). k = ''model'' \<or> k = ''messages'') completion_params
                    @ kwargs
      in if list_ex (\<lambda>(k, v). k = ''response_format'') kwargs then raise TypeError
         else io_bind (emit (ChatCompletion request))
                (\<lambda>_. lift (chat_completions_create w client request)))"

definition fetch_json :: "world \<Rightarrow> string \<Rightarrow> json result" where
  "fetch_json w data = json_repair_loads w data"

fun count_items :: "(string \<Rightarrow> nat result) \<Rightarrow> (string \<times> string) list \<Rightarrow> int \<Rightarrow> int result" where
  "count_items encode [] num_tokens = Inr num_tokens"
| "count_items encode ((key, val) # kvs) num_tokens =
     (case encode val of
        Inl e \<Rightarrow> Inl e
      | Inr n \<Rightarrow>
          count_items encode kvs
            (if key = ''name'' then num_tokens + int n + (-1) else num_tokens + int n))"

fun count_messages :: "(string \<Rightarrow> nat result) \<Rightarrow> (string \<times> string) list list \<Rightarrow> int \<Rightarrow> int result" where
  "count_messages encode [] num_tokens = Inr num_tokens"
| "count_messages encode (message # messages) num_tokens =
     (case count_items encode message (num_tokens + 4) of
        Inl e \<Rightarrow> Inl e
      | Inr n \<Rightarrow> count_messages encode messages n)"

text \<open>\<open>num_tokens_from_messages\<close>: only a \<open>KeyError\<close> of \<open>encoding_for_model\<close> is caught.\<close>

definition num_tokens_from_messages ::
    "world \<Rightarrow> (string \<times> string) list list \<Rightarrow> string option \<Rightarrow> int result" where
  "num_tokens_from_messages w messages model =
     (case (case encoding_for_model w model of
              Inl KeyError \<Rightarrow> get_encoding w ''cl100k_base''
            | r \<Rightarrow> r) of
        Inl e \<Rightarrow> Inl e
      | Inr encode \<Rightarrow>
          (case count_messages encode messages 0 of
             Inl e \<Rightarrow> Inl e
           | Inr num_tokens \<Rightarrow> Inr (num_tokens + 2)))"

section \<open>CodeReviewPipe\<close>

text \<open>The fields \<open>__init__\<close> reads from the environment. \<open>self.workspace\<close> and
  \<open>self.repo_slug\<close> hold the values given to the Bitbucket client and are read from
  there; \<open>self.chat_gpt_client\<close> is created in \<open>run\<close> and passed on as an argument.\<close>

record CodeReviewPipe =
  bitbucket_client :: BitbucketApiService
  open_api_key :: "string option"
  base_url :: "string option"
  organization :: "string option"
  model :: "string option"
  user_message_content :: "string option"
  files_to_review :: "string option"
  completion_parameters_payload_file :: "string option"
  chatgpt_parameters_payload_file :: "string option"

definition resolve_auth :: "env \<Rightarrow> auth result" where
  "resolve_auth env =
     (let username = env ''BITBUCKET_USERNAME'';
          password = env ''BITBUCKET_APP_PASSWORD'';
          token = env ''BITBUCKET_ACCESS_TOKEN''
      in if truthy_opt username \<and> truthy_opt password
         then Inr (HTTPBasicAuth (fmt username) (fmt password))
         else if truthy_opt token then Inr (TokenAuth (fmt token))
         else Inl ValueError)"

text \<open>\<open>CodeReviewPipe()\<close>: \<open>__init__\<close> makes no request and writes no log line.\<close>

definition init :: "env \<Rightarrow> CodeReviewPipe result" where
  "init env =
     (case resolve_auth env of
        Inl e \<Rightarrow> Inl e
      | Inr auth_method_bitbucket \<Rightarrow>
          Inr \<lparr> bitbucket_client =
                  \<lparr> auth = auth_method_bitbucket,
                    workspace = env ''BITBUCKET_WORKSPACE'',
                    repo_slug = env ''BITBUCKET_REPO_SLUG'' \<rparr>,
                open_api_key = env ''OPENAI_API_KEY'',
                base_url = env ''OPENAI_BASE_URL'',
                organization = env ''ORGANIZATION'',
                model = env ''MODEL'',
                user_message_content = env ''MESSAGE'',
                files_to_review = env ''FILES_TO_REVIEW'',
                completion_parameters_payload_file = env ''CHATGPT_COMPLETION_FILEPATH'',
                chatgpt_parameters_payload_file = env ''CHATGPT_CLIENT_FILEPATH'' \<rparr>)"

text \<open>\<open>get_diffs_to_review\<close>: a non-empty \<open>FILES_TO_REVIEW\<close> is split at its commas
  (the list \<open>split\<close> gives is never empty, so the second test of the \<open>if\<close> is true
  whenever the first is).\<close>

definition get_diffs_to_review :: "world \<Rightarrow> CodeReviewPipe \<Rightarrow> string \<Rightarrow> string list io" where
  "get_diffs_to_review w self pull_request_id =
     io_bind (get_pull_request_diffs w (bitbucket_client self) pull_request_id) (\<lambda>diffs_text.
       let files_to_review =
             (case files_to_review self of
                None \<Rightarrow> []
              | Some s \<Rightarrow> if s \<noteq> [] \<and> split_from '','' [] s \<noteq> [] then split_from '','' [] s else [])
       in lift (fetch_diffs diffs_text files_to_review (Some DIFF_DELIMITER)))"

text \<open>
  \<open>re.search(r"a/(.*?) b/", diff)\<close>. \<open>lazy_group\<close> is the lazy group after an \<open>a/\<close>: it
  grows one character at a time, never over a line feed, until \<open> b/\<close> follows.
  \<open>pattern_filename_search\<close> tries the start positions from the left and gives the group
  of the first position that matches.
\<close>

fun lazy_group :: "string \<Rightarrow> string \<Rightarrow> string option" where
  "lazy_group acc [] = None"
| "lazy_group acc (c # cs) =
     (if prefix '' b/'' (c # cs) then Some (rev acc)
      else if c = CHR 0x0A then None
      else lazy_group (c # acc) cs)"

fun pattern_filename_search :: "string \<Rightarrow> string option" where
  "pattern_filename_search [] = None"
| "pattern_filename_search (c # cs) =
     (if prefix ''a/'' (c # cs)
      then (case lazy_group [] (drop 2 (c # cs)) of
              Some g \<Rightarrow> Some g
            | None \<Rightarrow> pattern_filename_search cs)
      else pattern_filename_search cs)"

definition get_files_with_diffs :: "string list \<Rightarrow> string list" where
  "get_files_with_diffs diffs_to_review =
     [the (pattern_filename_search diff).
        diff \<leftarrow> diffs_to_review, pattern_filename_search diff \<noteq> None]"

definition load_yaml :: "world \<Rightarrow> string \<Rightarrow> (string \<times> json) list option result" where
  "load_yaml w filepath =
     (if \<not> path_exists w filepath then Inl FileNotFoundError
      else yaml_safe_load w filepath)"

text \<open>\<open>params.update(loaded)\<close>: updating from \<open>None\<close> is a \<open>TypeError\<close>.\<close>

fun update_from :: "(string \<times> json) list \<Rightarrow> (string \<times> json) list option \<Rightarrow> (string \<times> json) list result" where
  "update_from d None = Inl TypeError"
| "update_from d (Some kvs) = Inr (dict_update d kvs)"

definition json_of_messages :: "(string \<times> string) list list \<Rightarrow> json" where
  "json_of_messages messages = JArr (map (\<lambda>m. JObj (map (\<lambda>(k, v). (k, JStr v)) m)) messages)"

text \<open>\<open>get_code_review\<close>: the value returned is the parsed reply, or \<open>None\<close> when the
  token ceiling is exceeded.\<close>

definition get_code_review ::
    "world \<Rightarrow> env \<Rightarrow> CodeReviewPipe \<Rightarrow> (string \<times> json) list \<Rightarrow> string list \<Rightarrow> json io" where
  "get_code_review w env self chat_gpt_client diffs_to_review =
     (let messages =
            [[(''role'', ''system''), (''content'', DEFAULT_SYSTEM_PROMPT_FOR_CODE_REVIEW w)]]
            @ (if truthy_opt (user_message_content self)
               then [[(''role'', ''system''), (''content'', fmt (user_message_content self))]]
               else [])
            @ [[(''role'', ''user''), (''content'', str_list w diffs_to_review)]]
      in
      io_bind (lift (num_tokens_from_messages w messages (model self))) (\<lambda>num_tokens.
      io_bind (lift (py_int (int_max_str_digits w)
                       (case env ''CHATGPT_PROMPT_MAX_TOKENS'' of None \<Rightarrow> ''0'' | Some v \<Rightarrow> v)))
        (\<lambda>chat_gpt_token_limit.
      if chat_gpt_token_limit \<noteq> 0 \<and> num_tokens > chat_gpt_token_limit
      then io_bind (emit (Log WARNING (TokensMoreThenAllowed num_tokens chat_gpt_token_limit))) (\<lambda>_.
           io_bind (emit (Log INFO PipeIsStopped)) (\<lambda>_.
           ret JNull))
      else
      io_bind (emit (Log INFO (ConfigurationModel (model self)))) (\<lambda>_.
      io_bind (let completion_params =
                     [(''model'', json_of_opt (model self)),
                      (''messages'', json_of_messages messages)]
               in if truthy_opt (completion_parameters_payload_file self)
                  then io_bind (lift (load_yaml w (fmt (completion_parameters_payload_file self))))
                         (\<lambda>users_completion_params.
                       io_bind (emit (Log INFO (CompletionParameters users_completion_params))) (\<lambda>_.
                       lift (update_from completion_params users_completion_params)))
                  else ret completion_params)
        (\<lambda>completion_params.
      io_bind (emit (Log INFO (ConfigurationMessages messages))) (\<lambda>_.
      io_bind (emit (Log INFO ProcessingChatGPT)) (\<lambda>_.
      io_bind (create_completion w chat_gpt_client completion_params) (\<lambda>raw_suggestions.
      io_bind (emit (Log INFO ProcessingTakes)) (\<lambda>_.
      io_bind (emit (Log INFO CompletionTokens)) (\<lambda>_.
      lift (fetch_json w raw_suggestions)))))))))))"

text \<open>
  \<open>re.match(r"(.+):(\d+)", key)\<close>, anchored at the start of the key only. The greedy
  first group first takes the whole first line of the key, then gives characters back
  one at a time (\<open>backtrack\<close>, down to one character) until a colon and a digit follow
  it; the second group is the run of digits from there.
\<close>

fun backtrack :: "string \<Rightarrow> nat \<Rightarrow> (string \<times> string) option" where
  "backtrack s 0 = None"
| "backtrack s (Suc k) =
     (case drop (Suc k) s of
        c # d # rest \<Rightarrow>
          if c = CHR '':'' \<and> is_digit d
          then Some (take (Suc k) s, takeWhile is_digit (d # rest))
          else backtrack s k
      | _ \<Rightarrow> backtrack s k)"

definition pattern_filename_line_match :: "string \<Rightarrow> (string \<times> string) option" where
  "pattern_filename_line_match s = backtrack s (length (takeWhile (\<lambda>c. c \<noteq> CHR 0x0A) s))"

text \<open>The loop of \<open>add_comments\<close> over \<open>data.items()\<close>, with the list of commented files
  and the counter as they stand.\<close>

fun add_comments_loop ::
    "world \<Rightarrow> BitbucketApiService \<Rightarrow> string \<Rightarrow> (string \<times> json) list \<Rightarrow> string list \<Rightarrow> nat
       \<Rightarrow> (string list \<times> nat) io" where
  "add_comments_loop w client pull_request_id [] files_with_comments added_suggestions_counter =
     ret (files_with_comments, added_suggestions_counter)"
| "add_comments_loop w client pull_request_id ((filename_line, content) # items)
       files_with_comments added_suggestions_counter =
     (case pattern_filename_line_match filename_line of
        None \<Rightarrow>
          add_comments_loop w client pull_request_id items
            files_with_comments added_suggestions_counter
      | Some (filename, line) \<Rightarrow>
          io_bind (lift (py_len content)) (\<lambda>n.
            if n \<noteq> 0
            then io_bind (lift (py_int (int_max_str_digits w) line)) (\<lambda>to.
                 io_bind (add_comment w client pull_request_id (InlineComment to filename content))
                   (\<lambda>_.
                 add_comments_loop w client pull_request_id items
                   (files_with_comments @ [filename]) (added_suggestions_counter + 1)))
            else add_comments_loop w client pull_request_id items
                   files_with_comments added_suggestions_counter))"

definition add_comments :: "world \<Rightarrow> CodeReviewPipe \<Rightarrow> string \<Rightarrow> json \<Rightarrow> (string set \<times> nat) io" where
  "add_comments w self pull_request_id data =
     io_bind (lift (py_items data)) (\<lambda>items.
     io_bind (add_comments_loop w (bitbucket_client self) pull_request_id items [] 0)
       (\<lambda>(files_with_comments, added_suggestions_counter).
     ret (set files_with_comments, added_suggestions_counter)))"

definition add_summary :: "world \<Rightarrow> CodeReviewPipe \<Rightarrow> string \<Rightarrow> json \<Rightarrow> unit io" where
  "add_summary w self pull_request_id summary =
     add_comment w (bitbucket_client self) pull_request_id (SummaryComment summary)"

definition run :: "world \<Rightarrow> env \<Rightarrow> CodeReviewPipe \<Rightarrow> unit io" where
  "run w env self =
     io_bind (emit (Log INFO ExecutingThePipe)) (\<lambda>_.
     case env ''BITBUCKET_PR_ID'' of
       None \<Rightarrow> raise EnvironmentError
     | Some pull_request_id \<Rightarrow>
     io_bind (get_diffs_to_review w self pull_request_id) (\<lambda>diffs_to_review.
     if diffs_to_review = []
     then emit (Log WARNING (NoFilesForCodereview (files_to_review self)))
     else
     let files_with_diffs = get_files_with_diffs diffs_to_review in
     io_bind (emit (Log INFO (FilesWithDiffsCount (length files_with_diffs) (set files_with_diffs))))
       (\<lambda>_.
     io_bind (let chatgpt_parameters =
                    [(''base_url'', json_of_opt (base_url self)),
                     (''api_key'', json_of_opt (open_api_key self)),
                     (''organization'', json_of_opt (organization self))]
              in if truthy_opt (chatgpt_parameters_payload_file self)
                 then io_bind (lift (load_yaml w (fmt (chatgpt_parameters_payload_file self))))
                        (\<lambda>users_chatgpt_parameters.
                      io_bind (emit (Log INFO (ClientParameters users_chatgpt_parameters))) (\<lambda>_.
                      lift (update_from chatgpt_parameters users_chatgpt_parameters)))
                 else ret chatgpt_parameters)
       (\<lambda>chatgpt_parameters.
     io_bind (AiService w chatgpt_parameters) (\<lambda>chat_gpt_client.
     io_bind (get_code_review w env self chat_gpt_client diffs_to_review) (\<lambda>code_review.
     io_bind (lift (py_get code_review ''summary'')) (\<lambda>summary.
     io_bind (lift (py_get code_review ''suggestions'')) (\<lambda>suggestions.
     io_bind (if truthy summary then add_summary w self pull_request_id summary else ret ()) (\<lambda>_.
     io_bind (add_comments w self pull_request_id suggestions)
       (\<lambda>(files_with_comments, added_suggestions_counter).
     io_bind (emit (Log INFO (SuggestionsCount added_suggestions_counter))) (\<lambda>_.
     io_bind (emit (Log INFO (CommentedFilesCount (card files_with_comments) files_with_comments)))
       (\<lambda>_.
     emit (Log INFO (SuccessfullyAdded
       (''https://bitbucket.org/'' @ fmt (workspace (bitbucket_client self)) @ ''/''
          @ fmt (repo_slug (bitbucket_client self)) @ ''/pull-requests/'' @ pull_request_id)))
     ))))))))))))"

text \<open>The program: build the pipe, then run it.\<close>

definition main :: "world \<Rightarrow> env \<Rightarrow> unit io" where
  "main w env = io_bind (lift (init env)) (\<lambda>pipe. run w env pipe)"

text \<open>Reading a trace.\<close>

fun is_network_call :: "event \<Rightarrow> bool" where
  "is_network_call (HttpGet url) = True"
| "is_network_call (HttpPost url p) = True"
| "is_network_call (ChatCompletion request) = True"
| "is_network_call (Log l m) = False"

fun is_completion_call :: "event \<Rightarrow> bool" where
  "is_completion_call (ChatCompletion request) = True"
| "is_completion_call _ = False"

fun is_comment_post :: "event \<Rightarrow> bool" where
  "is_comment_post (HttpPost url p) = True"
| "is_comment_post _ = False"

fun is_warning :: "event \<Rightarrow> bool" where
  "is_warning (Log WARNING m) = True"
| "is_warning _ = False"

text \<open>The paths of the inline comments posted in a trace, in order.\<close>

fun inline_paths :: "event list \<Rightarrow> string list" where
  "inline_paths [] = []"
| "inline_paths (HttpPost url (InlineComment to path content) # t) = path # inline_paths t"
| "inline_paths (ev # t) = inline_paths t"

section \<open>Notions used by the properties\<close>

text \<open>A separator no proper, non-empty suffix of which is a prefix of it: two of its
  occurrences in a text cannot overlap.\<close>

definition unbordered :: "string \<Rightarrow> bool" where
  "unbordered sep = list_all (\<lambda>i. \<not> prefix (drop i sep) sep) [1..<length sep]"

text \<open>
  The location-key format in the words of the specification, to be compared with
  \<open>pattern_filename_line_match\<close>: the key is \<open><path>:<line>\<close>, where the line is one or
  more digits and the path is everything before the final \<open>:<digits>\<close> segment.
\<close>

definition spec_location_key :: "string \<Rightarrow> (string \<times> string) option" where
  "spec_location_key key =
     (let line = rev (takeWhile is_digit (rev key));
          before = rev (dropWhile is_digit (rev key))
      in if line \<noteq> [] \<and> before \<noteq> [] \<and> last before = CHR '':'' \<and> butlast before \<noteq> []
         then Some (butlast before, line)
         else None)"

text \<open>An event is a comment request that the comment sink accepted.\<close>

fun accepted_post :: "world \<Rightarrow> auth \<Rightarrow> event \<Rightarrow> bool" where
  "accepted_post w a (HttpPost url p) = (http_post w a url p = Inr ())"
| "accepted_post w a ev = False"

text \<open>A suggestion whose value is a string.\<close>

fun is_JStr :: "json \<Rightarrow> bool" where
  "is_JStr (JStr s) = True"
| "is_JStr v = False"

subsection \<open>A cooperative outside, for the examples\<close>

text \<open>The diff source answers \<open>diff_text\<close>, every text costs \<open>cost\<close> tokens (under the
  fallback encoding), the completion parses to \<open>reply\<close>, every comment is accepted, and
  there are no parameter files. The chunks are stringified by concatenation: in the
  examples only the token cost of the result matters.\<close>

definition example_world :: "string \<Rightarrow> nat \<Rightarrow> json \<Rightarrow> world" where
  "example_world diff_text cost reply =
     \<lparr> http_get = (\<lambda>a url. Inr diff_text),
       http_post = (\<lambda>a url p. Inr ()),
       path_exists = (\<lambda>f. False),
       yaml_safe_load = (\<lambda>f. Inr None),
       OpenAI = (\<lambda>ps. Inr ()),
       chat_completions_create = (\<lambda>c r. Inr ''{}''),
       json_repair_loads = (\<lambda>s. Inr reply),
       encoding_for_model = (\<lambda>m. Inl KeyError),
       get_encoding = (\<lambda>n. Inr (\<lambda>s. Inr cost)),
       str_list = concat,
       int_max_str_digits = 4300,
       DEFAULT_SYSTEM_PROMPT_FOR_CODE_REVIEW = ''Review a file of source code.'' \<rparr>"

definition example_env :: env where
  "example_env = map_of
     [(''BITBUCKET_ACCESS_TOKEN'', ''secret''),
      (''BITBUCKET_WORKSPACE'', ''ws''),
      (''BITBUCKET_REPO_SLUG'', ''repo''),
      (''BITBUCKET_PR_ID'', ''7''),
      (''MODEL'', ''gpt-4'')]"

definition example_pipe :: CodeReviewPipe where
  "example_pipe =
     \<lparr> bitbucket_client =
         \<lparr> auth = TokenAuth ''secret'', workspace = Some ''ws'', repo_slug = Some ''repo'' \<rparr>,
       open_api_key = None, base_url = None, organization = None, model = Some ''gpt-4'',
       user_message_content = None, files_to_review = None,
       completion_parameters_payload_file = None, chatgpt_parameters_payload_file = None \<rparr>"

definition two_file_diff :: string where
  "two_file_diff =
     ''diff --git a/a.py b/a.py\<newline>+x\<newline>diff --git a/b.py b/b.py\<newline>+y\<newline>''"

text \<open>The two request URLs.\<close>

definition diff_url :: "BitbucketApiService \<Rightarrow> string \<Rightarrow> string" where
  "diff_url self pull_request_id =
     BITBUCKET_API_BASE_URL @ ''/repositories/'' @ fmt (workspace self) @ ''/''
       @ fmt (repo_slug self) @ ''/pullrequests/'' @ pull_request_id @ ''/diff''"

definition comments_url :: "BitbucketApiService \<Rightarrow> string \<Rightarrow> string" where
  "comments_url self pull_request_id =
     BITBUCKET_API_BASE_URL @ ''/repositories/'' @ fmt (workspace self) @ ''/''
       @ fmt (repo_slug self) @ ''/pullrequests/'' @ pull_request_id @ ''/comments''"

section \<open>Unfolding and evaluation\<close>

lemmas io_defs = io_bind_def lift_def emit_def ret_def raise_def Let_def

lemmas pipe_defs =
  main_def init_def resolve_auth_def run_def get_diffs_to_review_def get_pull_request_diffs_def
  get_files_with_diffs_def AiService_def get_code_review_def num_tokens_from_messages_def
  create_completion_def fetch_json_def add_summary_def add_comments_def add_comment_def
  load_yaml_def json_of_messages_def

lemmas py_defs =
  fetch_diffs_def str_split_def py_int_def strip_def is_space_def is_digit_def decimal_def
  digit_val_def pattern_filename_line_match_def DIFF_DELIMITER_def BITBUCKET_API_BASE_URL_def

lemmas example_defs = example_world_def example_env_def example_pipe_def two_file_diff_def

lemma get_pull_request_diffs_eq:
  "get_pull_request_diffs w self pull_request_id =
     (http_get w (auth self) (diff_url self pull_request_id), [HttpGet (diff_url self pull_request_id)])"
  by (simp add: get_pull_request_diffs_def diff_url_def io_defs)

lemma add_comment_eq:
  "add_comment w self pull_request_id payload =
     (http_post w (auth self) (comments_url self pull_request_id) payload,
      [HttpPost (comments_url self pull_request_id) payload])"
  by (simp add: add_comment_def comments_url_def io_defs)

section \<open>The splitter\<close>

lemma sequence_map_Inr: "sequence (map Inr xs) = Inr xs"
  by (induction xs) auto

lemma split_from_nonempty: "split_from sep acc s \<noteq> []"
  by (induction sep acc s rule: split_from.induct) auto

lemma length_split_from: "length (split_from sep acc s) = Suc (count_from sep s)"
  by (induction sep acc s rule: split_from.induct) auto

lemma join_Cons: "xs \<noteq> [] \<Longrightarrow> join sep (x # xs) = x @ sep @ join sep xs"
  by (cases xs) auto

lemma prefix_drop_length: "prefix sep s \<Longrightarrow> sep @ drop (length sep) s = s"
  by (auto simp: prefix_def)

text \<open>Joining the pieces with the separator gives the text back.\<close>

lemma join_split_from: "join sep (split_from sep acc s) = rev acc @ s"
proof (induction sep acc s rule: split_from.induct)
  case (1 sep acc)
  then show ?case by simp
next
  case (2 sep acc c cs)
  show ?case
  proof (cases "sep \<noteq> [] \<and> prefix sep (c # cs)")
    case True
    with 2 prefix_drop_length [of sep "c # cs"] show ?thesis
      by (simp add: join_Cons split_from_nonempty)
  next
    case False
    with 2 show ?thesis by auto
  qed
qed

text \<open>With a delimiter that is a non-empty string, \<open>fetch_diffs\<close> raises nothing.\<close>

lemma fetch_diffs_Some:
  assumes "d \<noteq> []"
  shows "fetch_diffs diffs filenames (Some d) =
           Inr (if filenames \<noteq> []
                then [d @ diff. diff \<leftarrow> split_from d [] diffs, filename \<leftarrow> filenames, prefix filename diff]
                else map ((@) d) (split_from d [] diffs))"
proof -
  have a: "[str_add (Some d) diff. diff \<leftarrow> ps, filename \<leftarrow> filenames, prefix filename diff]
         = map Inr [d @ diff. diff \<leftarrow> ps, filename \<leftarrow> filenames, prefix filename diff]" for ps
    by (induction ps) (simp_all add: map_concat comp_def if_distrib [of "map Inr"] cong: if_cong)
  have b: "[str_add (Some d) diff. diff \<leftarrow> ps] = map Inr (map ((@) d) ps)" for ps
    by simp
  show ?thesis
    using assms unfolding fetch_diffs_def str_split_def
    by (simp only: a b sequence_map_Inr option.case sum.case if_False split: if_splits) simp
qed

text \<open>For an unbordered separator, the scan of \<open>split\<close> finds every occurrence.\<close>

lemma occurrences_skip:
  "(\<And>i. i < length u \<Longrightarrow> \<not> prefix sep (drop i u @ v)) \<Longrightarrow> occurrences sep (u @ v) = occurrences sep v"
proof (induction u)
  case Nil
  then show ?case by simp
next
  case (Cons c u)
  have "\<not> prefix sep ((c # u) @ v)" using Cons.prems [of 0] by simp
  moreover have "occurrences sep (u @ v) = occurrences sep v"
  proof (rule Cons.IH)
    fix i assume "i < length u"
    then show "\<not> prefix sep (drop i u @ v)" using Cons.prems [of "Suc i"] by simp
  qed
  ultimately show ?case by simp
qed

lemma unbordered_no_overlap:
  assumes "unbordered sep" "0 < i" "i < length sep"
  shows "\<not> prefix sep (drop i sep @ v)"
proof
  assume p: "prefix sep (drop i sep @ v)"
  have "prefix (drop i sep) (drop i sep @ v)" by simp
  from this p have "prefix (drop i sep) sep"
    by (rule prefix_length_prefix) simp
  moreover have "\<not> prefix (drop i sep) sep"
    using assms by (auto simp: unbordered_def list_all_iff)
  ultimately show False by simp
qed

lemma occurrences_behind:
  assumes "unbordered sep" "sep \<noteq> []" "prefix sep s"
  shows "occurrences sep s = Suc (occurrences sep (drop (length sep) s))"
proof -
  obtain c u where sep: "sep = c # u" using assms(2) by (cases sep) auto
  obtain v where s: "s = sep @ v" using assms(3) by (auto simp: prefix_def)
  have "occurrences sep (u @ v) = occurrences sep v"
  proof (rule occurrences_skip)
    fix i assume "i < length u"
    then have "\<not> prefix sep (drop (Suc i) sep @ v)"
      using unbordered_no_overlap [OF assms(1), of "Suc i" v] sep by simp
    then show "\<not> prefix sep (drop i u @ v)" using sep by simp
  qed
  then show ?thesis using s sep by simp
qed

lemma count_from_occurrences:
  "unbordered sep \<Longrightarrow> sep \<noteq> [] \<Longrightarrow> count_from sep s = occurrences sep s"
proof (induction sep s rule: count_from.induct)
  case (1 sep)
  then show ?case by simp
next
  case (2 sep c cs)
  show ?case
  proof (cases "prefix sep (c # cs)")
    case True
    with 2 occurrences_behind [of sep "c # cs"] show ?thesis by simp
  next
    case False
    with 2 show ?thesis by simp
  qed
qed

lemma unbordered_DIFF_DELIMITER: "unbordered DIFF_DELIMITER"
  by (simp add: unbordered_def DIFF_DELIMITER_def upt_rec)

subsection \<open>C2: number of chunks and reconstruction\<close>

text \<open>
  Claim C2, as amended. For every diff text and every non-empty delimiter, the splitter
  (without allowlist) returns exactly \<open>N + 1\<close> chunks, where \<open>N\<close> is the number of
  occurrences of the delimiter found by \<open>split\<close> (for an unbordered delimiter such as
  \<open>DIFF_DELIMITER\<close>: the number of positions where it occurs); every chunk starts with
  the delimiter; and joining the chunks' bodies (leading delimiter stripped) with the
  delimiter between them reconstructs the diff text.
\<close>

theorem fetch_diffs_chunks:
  assumes "d \<noteq> []"
  shows "\<exists>chunks. fetch_diffs diffs [] (Some d) = Inr chunks
           \<and> length chunks = count_from d diffs + 1
           \<and> (unbordered d \<longrightarrow> length chunks = occurrences d diffs + 1)
           \<and> (\<forall>c \<in> set chunks. prefix d c)
           \<and> join d (map (drop (length d)) chunks) = diffs"
proof -
  let ?chunks = "map ((@) d) (split_from d [] diffs)"
  have "fetch_diffs diffs [] (Some d) = Inr ?chunks"
    using assms by (simp add: fetch_diffs_Some)
  moreover have "length ?chunks = count_from d diffs + 1"
    by (simp add: length_split_from)
  moreover have "unbordered d \<longrightarrow> length ?chunks = occurrences d diffs + 1"
    using assms by (simp add: length_split_from count_from_occurrences)
  moreover have "\<forall>c \<in> set ?chunks. prefix d c"
    by auto
  moreover have "map (drop (length d)) ?chunks = split_from d [] diffs"
    by (simp add: comp_def)
  then have "join d (map (drop (length d)) ?chunks) = diffs"
    using join_split_from [of d "[]" diffs] by simp
  ultimately show ?thesis by blast
qed

theorem fetch_diffs_chunks_witness:
  "DIFF_DELIMITER \<noteq> [] \<and> unbordered DIFF_DELIMITER
   \<and> occurrences DIFF_DELIMITER two_file_diff = 2
   \<and> (\<exists>chunks. fetch_diffs two_file_diff [] (Some DIFF_DELIMITER) = Inr chunks
        \<and> length chunks = 3
        \<and> join DIFF_DELIMITER (map (drop (length DIFF_DELIMITER)) chunks) = two_file_diff)"
proof -
  have ne: "DIFF_DELIMITER \<noteq> []" by (simp add: DIFF_DELIMITER_def)
  have n: "occurrences DIFF_DELIMITER two_file_diff = 2"
    by (simp add: DIFF_DELIMITER_def two_file_diff_def)
  show ?thesis
    using fetch_diffs_chunks [OF ne, of two_file_diff] ne n unbordered_DIFF_DELIMITER
    by auto
qed

text \<open>
  The claim as stated fails: a diff text with one occurrence of the delimiter gives two
  chunks (the first is the delimiter alone), and the bodies concatenated without the
  delimiter are not the diff text.
\<close>

theorem fetch_diffs_one_delimiter_two_chunks:
  "occurrences DIFF_DELIMITER ''diff --git a/x b/x'' = 1
   \<and> fetch_diffs ''diff --git a/x b/x'' [] (Some DIFF_DELIMITER)
       = Inr [''diff --git a/'', ''diff --git a/x b/x'']
   \<and> concat (map (drop (length DIFF_DELIMITER)) [''diff --git a/'', ''diff --git a/x b/x''])
       \<noteq> ''diff --git a/x b/x''"
  by (simp add: fetch_diffs_def str_split_def DIFF_DELIMITER_def)

lemma comprehension_replicate:
  "[d @ diff. diff \<leftarrow> ps, filename \<leftarrow> fs, prefix filename diff]
   = concat (map (\<lambda>p. replicate (length (filter (\<lambda>f. prefix f p) fs)) (d @ p)) ps)"
proof -
  have h: "concat (map (\<lambda>f. if prefix f p then [x] else []) fs)
        = replicate (length (filter (\<lambda>f. prefix f p) fs)) x" for p x
    by (induction fs) auto
  show ?thesis by (simp only: h)
qed

lemma set_comprehension:
  "set [d @ diff. diff \<leftarrow> ps, filename \<leftarrow> fs, prefix filename diff]
   = {c \<in> set (map ((@) d) ps). \<exists>f \<in> set fs. prefix (d @ f) c}"
  by auto

lemma split_from_trailing:
  "last (split_from [x] acc (s @ [x])) = []"
  by (induction "[x]" acc s rule: split_from.induct) (auto simp: split_from_nonempty)

lemma trailing_comma_empty_entry: "[] \<in> set (split_from '','' [] (s @ '',''))"
  using split_from_trailing [of "CHR '',''" "[]" s] split_from_nonempty [of "'',''" "[]" "s @ '',''"]
  by (metis last_in_set)

lemma get_diffs_to_review_trace:
  "snd (get_diffs_to_review w self pr) = [HttpGet (diff_url (bitbucket_client self) pr)]"
  by (simp add: get_diffs_to_review_def get_pull_request_diffs_eq io_defs split: sum.splits)

subsection \<open>C5: the empty diff text\<close>

text \<open>
  Claim C5, as amended. Splitting empty diff text without an allowlist produces a single
  chunk, the delimiter alone (under an allowlist of non-empty names it produces the
  empty sequence); and an empty splitter result makes the pipeline exit early, with a
  warning, without calling the completion service and without posting a comment.
\<close>

theorem empty_diff_single_chunk:
  assumes "d \<noteq> []"
  shows "fetch_diffs [] [] (Some d) = Inr [d]
         \<and> (filenames \<noteq> [] \<and> [] \<notin> set filenames \<longrightarrow> fetch_diffs [] filenames (Some d) = Inr [])
         \<and> (env ''BITBUCKET_PR_ID'' = Some pr \<and> fst (get_diffs_to_review w self pr) = Inr [] \<longrightarrow>
              run w env self =
                (Inr (), [Log INFO ExecutingThePipe,
                          HttpGet (diff_url (bitbucket_client self) pr),
                          Log WARNING (NoFilesForCodereview (files_to_review self))]))"
proof -
  have 1: "fetch_diffs [] [] (Some d) = Inr [d]"
    using assms by (simp add: fetch_diffs_Some)
  have "[d @ diff. diff \<leftarrow> [[]], filename \<leftarrow> filenames, prefix filename diff] = []"
    if "[] \<notin> set filenames"
    using that by (induction filenames) auto
  then have 2: "filenames \<noteq> [] \<and> [] \<notin> set filenames \<longrightarrow> fetch_diffs [] filenames (Some d) = Inr []"
    using assms by (simp add: fetch_diffs_Some)
  have 3: "run w env self =
             (Inr (), [Log INFO ExecutingThePipe,
                       HttpGet (diff_url (bitbucket_client self) pr),
                       Log WARNING (NoFilesForCodereview (files_to_review self))])"
    if pr: "env ''BITBUCKET_PR_ID'' = Some pr" and e: "fst (get_diffs_to_review w self pr) = Inr []"
  proof -
    have "get_diffs_to_review w self pr = (Inr [], [HttpGet (diff_url (bitbucket_client self) pr)])"
      using e get_diffs_to_review_trace [of w self pr] by (cases "get_diffs_to_review w self pr") simp
    then show ?thesis
      using pr by (simp add: run_def io_bind_def emit_def)
  qed
  from 1 2 3 show ?thesis by blast
qed

theorem empty_diff_single_chunk_witness:
  "DIFF_DELIMITER \<noteq> []
   \<and> fetch_diffs [] [] (Some DIFF_DELIMITER) = Inr [DIFF_DELIMITER]
   \<and> fetch_diffs [] [''a.py''] (Some DIFF_DELIMITER) = Inr []
   \<and> example_env ''BITBUCKET_PR_ID'' = Some ''7''
   \<and> fst (get_diffs_to_review (example_world two_file_diff 10 JNull)
            (example_pipe\<lparr>files_to_review := Some ''c.py''\<rparr>) ''7'') = Inr []
   \<and> run (example_world two_file_diff 10 JNull) example_env
        (example_pipe\<lparr>files_to_review := Some ''c.py''\<rparr>)
      = (Inr (), [Log INFO ExecutingThePipe,
                  HttpGet ''https://api.bitbucket.org/2.0/repositories/ws/repo/pullrequests/7/diff'',
                  Log WARNING (NoFilesForCodereview (Some ''c.py''))])"
proof -
  have ne: "DIFF_DELIMITER \<noteq> []" by (simp add: DIFF_DELIMITER_def)
  have pr: "example_env ''BITBUCKET_PR_ID'' = Some ''7''" by (simp add: example_env_def)
  have e: "fst (get_diffs_to_review (example_world two_file_diff 10 JNull)
            (example_pipe\<lparr>files_to_review := Some ''c.py''\<rparr>) ''7'') = Inr []"
    by (simp add: pipe_defs py_defs example_defs io_defs)
  have u: "diff_url (bitbucket_client (example_pipe\<lparr>files_to_review := Some ''c.py''\<rparr>)) ''7''
           = ''https://api.bitbucket.org/2.0/repositories/ws/repo/pullrequests/7/diff''"
    by (simp add: diff_url_def example_pipe_def BITBUCKET_API_BASE_URL_def)
  show ?thesis
    using empty_diff_single_chunk [OF ne, of "[''a.py'']" example_env "''7''"
            "example_world two_file_diff 10 JNull" "example_pipe\<lparr>files_to_review := Some ''c.py''\<rparr>"]
          ne pr e u
    by simp
qed

text \<open>
  The claim as stated fails: the empty diff text gives one chunk, not none, and the run
  goes on to the completion service with it.
\<close>

theorem empty_diff_is_reviewed:
  "fetch_diffs [] [] (Some DIFF_DELIMITER) = Inr [''diff --git a/'']
   \<and> list_ex is_completion_call
        (snd (main (example_world [] 10 (JObj [(''suggestions'', JObj [])])) example_env))"
  by (simp add: pipe_defs py_defs example_defs io_defs)

subsection \<open>C8: filtering by the allowlist\<close>

text \<open>
  Claim C8. For every diff text and every non-empty allowlist, the chunks the splitter
  retains are exactly the chunks whose text begins with one of the allowlisted file
  names immediately after the delimiter (a prefix match on the raw text); with an empty
  allowlist nothing is filtered and all chunks pass. Filtering the chunks for \<open>a.py\<close> and
  \<open>b.py\<close> by the allowlist \<open>["a.py"]\<close> yields exactly the \<open>a.py\<close> chunk.
\<close>

theorem fetch_diffs_allowlist:
  assumes "d \<noteq> []"
  shows "(filenames \<noteq> [] \<longrightarrow>
            (\<exists>kept. fetch_diffs diffs filenames (Some d) = Inr kept
               \<and> set kept = {c \<in> set (map ((@) d) (split_from d [] diffs)).
                               \<exists>f \<in> set filenames. prefix (d @ f) c}))
         \<and> fetch_diffs diffs [] (Some d) = Inr (map ((@) d) (split_from d [] diffs))
         \<and> fetch_diffs two_file_diff [''a.py''] (Some DIFF_DELIMITER)
             = Inr [''diff --git a/a.py b/a.py\<newline>+x\<newline>'']"
proof -
  have "fetch_diffs two_file_diff [''a.py''] (Some DIFF_DELIMITER)
          = Inr [''diff --git a/a.py b/a.py\<newline>+x\<newline>'']"
    by (simp add: fetch_diffs_def str_split_def DIFF_DELIMITER_def two_file_diff_def)
  then show ?thesis
    using assms by (simp add: fetch_diffs_Some set_comprehension del: set_concat set_map)
qed

theorem fetch_diffs_allowlist_witness:
  "DIFF_DELIMITER \<noteq> [] \<and> [''b.py''] \<noteq> []
   \<and> (\<exists>kept. fetch_diffs two_file_diff [''b.py''] (Some DIFF_DELIMITER) = Inr kept
         \<and> set kept = {''diff --git a/b.py b/b.py\<newline>+y\<newline>''})
   \<and> fetch_diffs two_file_diff [] (Some DIFF_DELIMITER)
       = Inr [''diff --git a/'', ''diff --git a/a.py b/a.py\<newline>+x\<newline>'',
              ''diff --git a/b.py b/b.py\<newline>+y\<newline>'']"
proof -
  have ne: "DIFF_DELIMITER \<noteq> []" by (simp add: DIFF_DELIMITER_def)
  have sp: "split_from DIFF_DELIMITER [] two_file_diff
            = ['''', ''a.py b/a.py\<newline>+x\<newline>'', ''b.py b/b.py\<newline>+y\<newline>'']"
    by (simp add: DIFF_DELIMITER_def two_file_diff_def)
  have "{c \<in> set (map ((@) DIFF_DELIMITER) (split_from DIFF_DELIMITER [] two_file_diff)).
          \<exists>f \<in> set [''b.py'']. prefix (DIFF_DELIMITER @ f) c}
        = {''diff --git a/b.py b/b.py\<newline>+y\<newline>''}"
    unfolding sp by (auto simp: DIFF_DELIMITER_def)
  then show ?thesis
    using fetch_diffs_allowlist [OF ne, of "[''b.py'']" two_file_diff] ne sp
    by (auto simp: DIFF_DELIMITER_def)
qed

subsection \<open>C10: one copy per matching allowlist entry\<close>

text \<open>
  Claim C10. With a non-empty allowlist the splitter emits, for each piece of the diff
  text, one copy of the chunk per allowlist entry that is a prefix of the piece: a chunk
  prefixed by \<open>k\<close> distinct entries appears \<open>k\<close> times. An empty-string entry is a prefix
  of every piece, so then every chunk passes; and a \<open>FILES_TO_REVIEW\<close> value ending in a
  comma gives the splitter an allowlist with such an entry.
\<close>

theorem fetch_diffs_copies:
  assumes "d \<noteq> []" "filenames \<noteq> []"
  shows "\<exists>out. fetch_diffs diffs filenames (Some d) = Inr out
           \<and> out = concat (map (\<lambda>p. replicate (length (filter (\<lambda>f. prefix f p) filenames)) (d @ p))
                            (split_from d [] diffs))
           \<and> (distinct filenames \<longrightarrow>
                (\<forall>p. length (filter (\<lambda>f. prefix f p) filenames)
                       = card {f \<in> set filenames. prefix f p}))
           \<and> ([] \<in> set filenames \<longrightarrow> set (map ((@) d) (split_from d [] diffs)) \<subseteq> set out)
           \<and> (files_to_review self = Some (s @ '','') \<longrightarrow>
                (\<exists>fs. [] \<in> set fs
                   \<and> get_diffs_to_review w self pr
                       = io_bind (get_pull_request_diffs w (bitbucket_client self) pr)
                           (\<lambda>diffs_text. lift (fetch_diffs diffs_text fs (Some DIFF_DELIMITER)))))"
proof -
  let ?out = "[d @ diff. diff \<leftarrow> split_from d [] diffs, filename \<leftarrow> filenames, prefix filename diff]"
  have 1: "fetch_diffs diffs filenames (Some d) = Inr ?out"
    using assms by (simp add: fetch_diffs_Some)
  have 2: "?out = concat (map (\<lambda>p. replicate (length (filter (\<lambda>f. prefix f p) filenames)) (d @ p))
                            (split_from d [] diffs))"
    by (rule comprehension_replicate)
  have 3: "distinct filenames \<longrightarrow>
             (\<forall>p. length (filter (\<lambda>f. prefix f p) filenames) = card {f \<in> set filenames. prefix f p})"
    by (auto simp: distinct_length_filter Int_def conj_commute)
  have 4: "[] \<in> set filenames \<longrightarrow> set (map ((@) d) (split_from d [] diffs)) \<subseteq> set ?out"
    by (auto simp: set_comprehension simp del: set_concat intro!: bexI [of _ "[]"])
  have 5: "files_to_review self = Some (s @ '','') \<longrightarrow>
                (\<exists>fs. [] \<in> set fs
                   \<and> get_diffs_to_review w self pr
                       = io_bind (get_pull_request_diffs w (bitbucket_client self) pr)
                           (\<lambda>diffs_text. lift (fetch_diffs diffs_text fs (Some DIFF_DELIMITER))))"
  proof
    assume f: "files_to_review self = Some (s @ '','')"
    have "get_diffs_to_review w self pr
            = io_bind (get_pull_request_diffs w (bitbucket_client self) pr)
                (\<lambda>diffs_text. lift (fetch_diffs diffs_text (split_from '','' [] (s @ '','')) (Some DIFF_DELIMITER)))"
      by (simp add: get_diffs_to_review_def f split_from_nonempty)
    with trailing_comma_empty_entry [of s] show "\<exists>fs. [] \<in> set fs
                   \<and> get_diffs_to_review w self pr
                       = io_bind (get_pull_request_diffs w (bitbucket_client self) pr)
                           (\<lambda>diffs_text. lift (fetch_diffs diffs_text fs (Some DIFF_DELIMITER)))"
      by blast
  qed
  from 1 2 3 4 5 show ?thesis by (intro exI [of _ ?out] conjI)
qed

theorem fetch_diffs_copies_witness:
  "DIFF_DELIMITER \<noteq> [] \<and> [''a.py'', ''''] \<noteq> [] \<and> distinct [''a.py'', ''''] \<and> [] \<in> set [''a.py'', '''']
   \<and> files_to_review (example_pipe\<lparr>files_to_review := Some ''a.py,''\<rparr>) = Some (''a.py'' @ '','')
   \<and> (\<exists>out. fetch_diffs two_file_diff [''a.py'', ''''] (Some DIFF_DELIMITER) = Inr out
         \<and> out = [''diff --git a/'',
                  ''diff --git a/a.py b/a.py\<newline>+x\<newline>'',
                  ''diff --git a/a.py b/a.py\<newline>+x\<newline>'',
                  ''diff --git a/b.py b/b.py\<newline>+y\<newline>''])
   \<and> get_diffs_to_review (example_world two_file_diff 10 JNull)
         (example_pipe\<lparr>files_to_review := Some ''a.py,''\<rparr>) ''7''
       = (Inr [''diff --git a/'',
               ''diff --git a/a.py b/a.py\<newline>+x\<newline>'',
               ''diff --git a/a.py b/a.py\<newline>+x\<newline>'',
               ''diff --git a/b.py b/b.py\<newline>+y\<newline>''],
          [HttpGet ''https://api.bitbucket.org/2.0/repositories/ws/repo/pullrequests/7/diff''])"
proof -
  have ne: "DIFF_DELIMITER \<noteq> []" by (simp add: DIFF_DELIMITER_def)
  have fs: "[''a.py'', ''''] \<noteq> []" by simp
  have f: "fetch_diffs two_file_diff [''a.py'', ''''] (Some DIFF_DELIMITER)
           = Inr [''diff --git a/'',
                  ''diff --git a/a.py b/a.py\<newline>+x\<newline>'',
                  ''diff --git a/a.py b/a.py\<newline>+x\<newline>'',
                  ''diff --git a/b.py b/b.py\<newline>+y\<newline>'']"
    by (simp add: py_defs example_defs)
  have g: "get_diffs_to_review (example_world two_file_diff 10 JNull)
         (example_pipe\<lparr>files_to_review := Some ''a.py,''\<rparr>) ''7''
       = (Inr [''diff --git a/'',
               ''diff --git a/a.py b/a.py\<newline>+x\<newline>'',
               ''diff --git a/a.py b/a.py\<newline>+x\<newline>'',
               ''diff --git a/b.py b/b.py\<newline>+y\<newline>''],
          [HttpGet ''https://api.bitbucket.org/2.0/repositories/ws/repo/pullrequests/7/diff''])"
    by (simp add: pipe_defs py_defs example_defs io_defs)
  from fetch_diffs_copies [OF ne fs, of two_file_diff]
  obtain out where o: "fetch_diffs two_file_diff [''a.py'', ''''] (Some DIFF_DELIMITER) = Inr out"
    by blast
  with f have "out = [''diff --git a/'',
                  ''diff --git a/a.py b/a.py\<newline>+x\<newline>'',
                  ''diff --git a/a.py b/a.py\<newline>+x\<newline>'',
                  ''diff --git a/b.py b/b.py\<newline>+y\<newline>'']"
    by simp
  with o g ne show ?thesis
    by (simp add: example_pipe_def)
qed

section \<open>The file name extractor\<close>

lemma lazy_group_sound:
  "lazy_group acc t = Some r \<Longrightarrow>
     \<exists>g v. r = rev acc @ g \<and> t = g @ '' b/'' @ v \<and> CHR 0x0A \<notin> set g"
proof (induction acc t rule: lazy_group.induct)
  case (1 acc)
  then show ?case by simp
next
  case (2 acc c cs)
  show ?case
  proof (cases "prefix '' b/'' (c # cs)")
    case True
    then obtain v where "c # cs = '' b/'' @ v" by (auto simp: prefix_def)
    with True 2 show ?thesis by (intro exI [of _ "[]"] exI [of _ v]) simp
  next
    case False
    with 2 have nl: "c \<noteq> CHR 0x0A" and r: "lazy_group (c # acc) cs = Some r"
      by (auto split: if_splits)
    from 2(1) [OF False nl r] obtain g v
      where "r = rev (c # acc) @ g" "cs = g @ '' b/'' @ v" "CHR 0x0A \<notin> set g" by blast
    with nl show ?thesis by (intro exI [of _ "c # g"] exI [of _ v]) simp
  qed
qed

lemma lazy_group_complete:
  "CHR 0x0A \<notin> set g \<Longrightarrow> lazy_group acc (g @ '' b/'' @ v) \<noteq> None"
  by (induction g arbitrary: acc) auto

lemma lazy_group_exact:
  "CHR 0x0A \<notin> set g \<Longrightarrow> (\<And>j. j < length g \<Longrightarrow> \<not> prefix '' b/'' (drop j g @ '' b/'' @ v))
     \<Longrightarrow> lazy_group acc (g @ '' b/'' @ v) = Some (rev acc @ g)"
proof (induction g arbitrary: acc)
  case Nil
  then show ?case by simp
next
  case (Cons c g)
  have "\<not> prefix '' b/'' ((c # g) @ '' b/'' @ v)" using Cons.prems(2) [of 0] by simp
  moreover have "lazy_group (c # acc) (g @ '' b/'' @ v) = Some (rev (c # acc) @ g)"
  proof (rule Cons.IH)
    show "CHR 0x0A \<notin> set g" using Cons.prems(1) by simp
    fix j assume "j < length g"
    then show "\<not> prefix '' b/'' (drop j g @ '' b/'' @ v)" using Cons.prems(2) [of "Suc j"] by simp
  qed
  ultimately show ?case using Cons.prems(1) by auto
qed

lemma no_overlap_b:
  assumes "\<not> (\<exists>u v. pa = u @ '' b/'' @ v)" "j < length pa"
  shows "\<not> prefix '' b/'' (drop j pa @ '' b/'' @ rest)"
proof
  assume p: "prefix '' b/'' (drop j pa @ '' b/'' @ rest)"
  have ne: "drop j pa \<noteq> []" using assms(2) by simp
  show False
  proof (cases "drop j pa")
    case Nil
    with ne show False by simp
  next
    case c1: (Cons x t1)
    show False
    proof (cases t1)
      case Nil
      with c1 p show False by simp
    next
      case c2: (Cons y t2)
      show False
      proof (cases t2)
        case Nil
        with c1 c2 p show False by simp
      next
        case (Cons z t)
        with c1 c2 p have "drop j pa = '' b/'' @ t" by simp
        then have "pa = take j pa @ '' b/'' @ t" by (metis append_take_drop_id)
        with assms(1) show False by blast
      qed
    qed
  qed
qed

lemma search_sound:
  "pattern_filename_search s = Some g \<Longrightarrow>
     \<exists>u v. s = u @ ''a/'' @ g @ '' b/'' @ v \<and> CHR 0x0A \<notin> set g"
proof (induction s)
  case Nil
  then show ?case by simp
next
  case (Cons c cs)
  show ?case
  proof (cases "prefix ''a/'' (c # cs) \<and> lazy_group [] (drop 2 (c # cs)) \<noteq> None")
    case True
    then obtain t where t: "c # cs = ''a/'' @ t" by (auto simp: prefix_def)
    with True Cons.prems have "lazy_group [] t = Some g" by (auto split: option.splits)
    from lazy_group_sound [OF this] obtain v where "t = g @ '' b/'' @ v" "CHR 0x0A \<notin> set g"
      by auto
    with t show ?thesis by (intro exI [of _ "[]"] exI [of _ v]) simp
  next
    case False
    with Cons.prems have "pattern_filename_search cs = Some g"
      by (auto split: if_splits option.splits)
    from Cons.IH [OF this] obtain u v where "cs = u @ ''a/'' @ g @ '' b/'' @ v" "CHR 0x0A \<notin> set g"
      by blast
    then show ?thesis by (intro exI [of _ "c # u"] exI [of _ v]) simp
  qed
qed

lemma search_complete:
  "CHR 0x0A \<notin> set g \<Longrightarrow> pattern_filename_search (u @ ''a/'' @ g @ '' b/'' @ v) \<noteq> None"
proof (induction u)
  case Nil
  with lazy_group_complete [of g "[]" v] show ?case by (auto split: option.splits)
next
  case (Cons c u)
  then show ?case by (auto split: option.splits)
qed

lemma search_None_iff:
  "pattern_filename_search s = None
     \<longleftrightarrow> \<not> (\<exists>u g v. s = u @ ''a/'' @ g @ '' b/'' @ v \<and> CHR 0x0A \<notin> set g)"
proof
  assume n: "pattern_filename_search s = None"
  show "\<not> (\<exists>u g v. s = u @ ''a/'' @ g @ '' b/'' @ v \<and> CHR 0x0A \<notin> set g)"
  proof
    assume "\<exists>u g v. s = u @ ''a/'' @ g @ '' b/'' @ v \<and> CHR 0x0A \<notin> set g"
    then obtain u g v where "s = u @ ''a/'' @ g @ '' b/'' @ v" "CHR 0x0A \<notin> set g" by blast
    with search_complete [of g u v] n show False by simp
  qed
next
  assume a: "\<not> (\<exists>u g v. s = u @ ''a/'' @ g @ '' b/'' @ v \<and> CHR 0x0A \<notin> set g)"
  show "pattern_filename_search s = None"
  proof (cases "pattern_filename_search s")
    case None
    then show ?thesis .
  next
    case (Some g)
    from search_sound [OF this] a show ?thesis by blast
  qed
qed

lemma search_delimited:
  assumes "CHR 0x0A \<notin> set pa" "\<not> (\<exists>u v. pa = u @ '' b/'' @ v)"
  shows "pattern_filename_search (DIFF_DELIMITER @ pa @ '' b/'' @ rest) = Some pa"
proof -
  have "lazy_group [] (pa @ '' b/'' @ rest) = Some (rev [] @ pa)"
    using assms(1) no_overlap_b [OF assms(2)] by (rule lazy_group_exact)
  then show ?thesis by (simp add: DIFF_DELIMITER_def)
qed

lemma get_files_with_diffs_skip:
  "pattern_filename_search chunk = None \<Longrightarrow>
     get_files_with_diffs (xs @ chunk # ys) = get_files_with_diffs (xs @ ys)"
  by (simp add: get_files_with_diffs_def)

subsection \<open>C4: the file name taken from a chunk\<close>

text \<open>
  Claim C4, as amended. For every chunk \<open><delimiter><path-a> b/<rest>\<close> whose
  \<open>path-a\<close> has no line feed and no \<open> b/\<close> inside, the file name extractor returns
  \<open>path-a\<close>, the path before the change (equal to the path after the change unless the
  file was renamed). A chunk yields no match exactly when it has no \<open>a/\<close> followed
  later on the same line by \<open> b/\<close>, anywhere in its text, and such a chunk is skipped
  silently.
\<close>

theorem get_files_with_diffs_path_a:
  "(CHR 0x0A \<notin> set pa \<and> \<not> (\<exists>u v. pa = u @ '' b/'' @ v) \<longrightarrow>
      get_files_with_diffs [DIFF_DELIMITER @ pa @ '' b/'' @ rest] = [pa])
   \<and> (pattern_filename_search chunk = None
        \<longleftrightarrow> \<not> (\<exists>u g v. chunk = u @ ''a/'' @ g @ '' b/'' @ v \<and> CHR 0x0A \<notin> set g))
   \<and> (pattern_filename_search chunk = None \<longrightarrow>
        get_files_with_diffs (xs @ chunk # ys) = get_files_with_diffs (xs @ ys))
   \<and> get_files_with_diffs [''diff --git a/x/y.py b/x/y.py\<newline>...''] = [''x/y.py'']
   \<and> get_files_with_diffs [''diff --git a/''] = []"
proof -
  have 1: "CHR 0x0A \<notin> set pa \<and> \<not> (\<exists>u v. pa = u @ '' b/'' @ v) \<longrightarrow>
             get_files_with_diffs [DIFF_DELIMITER @ pa @ '' b/'' @ rest] = [pa]"
  proof
    assume "CHR 0x0A \<notin> set pa \<and> \<not> (\<exists>u v. pa = u @ '' b/'' @ v)"
    then have "pattern_filename_search (DIFF_DELIMITER @ pa @ '' b/'' @ rest) = Some pa"
      using search_delimited [of pa rest] by blast
    then show "get_files_with_diffs [DIFF_DELIMITER @ pa @ '' b/'' @ rest] = [pa]"
      by (simp add: get_files_with_diffs_def)
  qed
  have 2: "get_files_with_diffs [''diff --git a/x/y.py b/x/y.py\<newline>...''] = [''x/y.py'']"
    by (simp add: get_files_with_diffs_def)
  have 3: "get_files_with_diffs [''diff --git a/''] = []"
    by (simp add: get_files_with_diffs_def)
  from 1 2 3 search_None_iff [of chunk] get_files_with_diffs_skip [of chunk xs ys]
  show ?thesis by blast
qed

theorem get_files_with_diffs_path_a_witness:
  "CHR 0x0A \<notin> set ''old.py'' \<and> \<not> (\<exists>u v. ''old.py'' = u @ '' b/'' @ v)
   \<and> get_files_with_diffs [DIFF_DELIMITER @ ''old.py'' @ '' b/'' @ ''new.py\<newline>''] = [''old.py'']
   \<and> pattern_filename_search ''index 1..2'' = None
   \<and> get_files_with_diffs ([''diff --git a/a.py b/a.py''] @ ''index 1..2'' # [])
        = get_files_with_diffs ([''diff --git a/a.py b/a.py''] @ [])"
proof -
  have a: "CHR 0x0A \<notin> set ''old.py''" by simp
  have b: "\<not> (\<exists>u v. ''old.py'' = u @ '' b/'' @ v)"
  proof
    assume "\<exists>u v. ''old.py'' = u @ '' b/'' @ v"
    then obtain u v where e: "''old.py'' = u @ '' b/'' @ v" by blast
    have "CHR '' '' \<in> set (u @ '' b/'' @ v)" by simp
    then have "CHR '' '' \<in> set ''old.py''" by (simp only: e)
    then show False by simp
  qed
  have n: "pattern_filename_search ''index 1..2'' = None" by simp
  show ?thesis
    using get_files_with_diffs_path_a
            [of "''old.py''" "''new.py\<newline>''" "''index 1..2''" "[''diff --git a/a.py b/a.py'']" "[]"]
          a b n
    by simp
qed

text \<open>
  The claim as stated fails: on the header of a renamed file the extractor gives the
  path before the change, not the one after it; and a chunk whose header lacks the
  pattern still yields a match when a later line has it.
\<close>

theorem get_files_with_diffs_renamed:
  "''diff --git a/old.py b/new.py\<newline>'' = DIFF_DELIMITER @ ''old.py'' @ '' b/'' @ ''new.py'' @ ''\<newline>''
   \<and> get_files_with_diffs [''diff --git a/old.py b/new.py\<newline>''] = [''old.py'']
   \<and> get_files_with_diffs [''diff --git a/x\<newline>+a/y b/z''] = [''y'']"
  by (simp add: get_files_with_diffs_def DIFF_DELIMITER_def)

section \<open>The comment publisher\<close>

lemma backtrack_Some:
  "backtrack s k = Some (p, l) \<Longrightarrow>
     \<exists>d r. s = p @ CHR '':'' # d # r \<and> is_digit d \<and> p \<noteq> [] \<and> length p \<le> k
           \<and> l = takeWhile is_digit (d # r)
           \<and> (\<forall>p' d' r'. s = p' @ CHR '':'' # d' # r' \<and> is_digit d' \<and> length p' \<le> k
                  \<longrightarrow> length p' \<le> length p)"
proof (induction k)
  case 0
  then show ?case by simp
next
  case (Suc k)
  show ?case
  proof (cases "\<exists>d r. drop (Suc k) s = CHR '':'' # d # r \<and> is_digit d")
    case True
    then obtain d r where dr: "drop (Suc k) s = CHR '':'' # d # r" "is_digit d" by blast
    then have res: "backtrack s (Suc k) = Some (take (Suc k) s, takeWhile is_digit (d # r))"
      by simp
    with Suc.prems have p: "p = take (Suc k) s" and l: "l = takeWhile is_digit (d # r)" by auto
    have len: "Suc k < length s" using dr(1) by (metis drop_all list.distinct(1) not_le)
    then have lp: "length p = Suc k" using p by simp
    have "s = p @ CHR '':'' # d # r" using p dr(1) by (metis append_take_drop_id)
    with dr(2) l lp show ?thesis by (intro exI [of _ d] exI [of _ r]) auto
  next
    case False
    then have res: "backtrack s (Suc k) = backtrack s k"
      by (auto split: list.splits)
    with Suc.prems have "backtrack s k = Some (p, l)" by simp
    from Suc.IH [OF this] obtain d r where
      h: "s = p @ CHR '':'' # d # r" "is_digit d" "p \<noteq> []" "length p \<le> k"
         "l = takeWhile is_digit (d # r)"
         "\<forall>p' d' r'. s = p' @ CHR '':'' # d' # r' \<and> is_digit d' \<and> length p' \<le> k
                  \<longrightarrow> length p' \<le> length p"
      by blast
    have "length p' \<le> length p"
      if a: "s = p' @ CHR '':'' # d' # r'" "is_digit d'" "length p' \<le> Suc k" for p' d' r'
    proof (cases "length p' = Suc k")
      case True
      with a(1) have "drop (Suc k) s = CHR '':'' # d' # r'" by simp
      with a(2) False show ?thesis by blast
    next
      case False
      with a(3) have "length p' \<le> k" by simp
      with a h(6) show ?thesis by blast
    qed
    with h show ?thesis by (intro exI [of _ d] exI [of _ r]) auto
  qed
qed

lemma backtrack_None:
  "backtrack s k = None \<Longrightarrow>
     \<not> (\<exists>p d r. s = p @ CHR '':'' # d # r \<and> is_digit d \<and> p \<noteq> [] \<and> length p \<le> k)"
proof (induction k)
  case 0
  then show ?case by simp
next
  case (Suc k)
  show ?case
  proof (cases "\<exists>d r. drop (Suc k) s = CHR '':'' # d # r \<and> is_digit d")
    case True
    then have "backtrack s (Suc k) \<noteq> None" by auto
    with Suc.prems show ?thesis by simp
  next
    case False
    then have "backtrack s (Suc k) = backtrack s k" by (auto split: list.splits)
    with Suc.prems have n: "backtrack s k = None" by simp
    show ?thesis
    proof
      assume "\<exists>p d r. s = p @ CHR '':'' # d # r \<and> is_digit d \<and> p \<noteq> [] \<and> length p \<le> Suc k"
      then obtain p d r where a: "s = p @ CHR '':'' # d # r" "is_digit d" "p \<noteq> []" "length p \<le> Suc k"
        by blast
      show False
      proof (cases "length p = Suc k")
        case True
        with a(1) have "drop (Suc k) s = CHR '':'' # d # r" by simp
        with a(2) False show False by blast
      next
        case False
        with a(4) have "length p \<le> k" by simp
        with a Suc.IH [OF n] show False by blast
      qed
    qed
  qed
qed

text \<open>A prefix of the key is free of line feeds exactly when it fits the first line.\<close>

lemma first_line_prefix:
  "CHR 0x0A \<notin> set p \<longleftrightarrow> length p \<le> length (takeWhile (\<lambda>c. c \<noteq> CHR 0x0A) (p @ x))"
proof
  assume "CHR 0x0A \<notin> set p"
  then have "takeWhile (\<lambda>c. c \<noteq> CHR 0x0A) (p @ x) = p @ takeWhile (\<lambda>c. c \<noteq> CHR 0x0A) x"
    by (induction p) auto
  then show "length p \<le> length (takeWhile (\<lambda>c. c \<noteq> CHR 0x0A) (p @ x))" by simp
next
  assume le: "length p \<le> length (takeWhile (\<lambda>c. c \<noteq> CHR 0x0A) (p @ x))"
  show "CHR 0x0A \<notin> set p"
  proof
    assume "CHR 0x0A \<in> set p"
    then have "takeWhile (\<lambda>c. c \<noteq> CHR 0x0A) (p @ x) = takeWhile (\<lambda>c. c \<noteq> CHR 0x0A) p"
      by (induction p) auto
    moreover have "length (takeWhile (\<lambda>c. c \<noteq> CHR 0x0A) p) < length p"
      using \<open>CHR 0x0A \<in> set p\<close> by (induction p) auto
    ultimately show False using le by simp
  qed
qed

lemma match_Some:
  assumes "pattern_filename_line_match key = Some (path, line)"
  shows "\<exists>d r. key = path @ CHR '':'' # d # r \<and> is_digit d \<and> path \<noteq> [] \<and> CHR 0x0A \<notin> set path
           \<and> line = takeWhile is_digit (d # r)
           \<and> (\<forall>p' d' r'. key = p' @ CHR '':'' # d' # r' \<and> is_digit d' \<and> CHR 0x0A \<notin> set p'
                  \<longrightarrow> length p' \<le> length path)"
proof -
  let ?k = "length (takeWhile (\<lambda>c. c \<noteq> CHR 0x0A) key)"
  from assms have "backtrack key ?k = Some (path, line)"
    by (simp add: pattern_filename_line_match_def)
  from backtrack_Some [OF this] obtain d r where
    h: "key = path @ CHR '':'' # d # r" "is_digit d" "path \<noteq> []" "length path \<le> ?k"
       "line = takeWhile is_digit (d # r)"
       "\<forall>p' d' r'. key = p' @ CHR '':'' # d' # r' \<and> is_digit d' \<and> length p' \<le> ?k
                  \<longrightarrow> length p' \<le> length path"
    by blast
  have nl: "CHR 0x0A \<notin> set path"
    using h(1,4) first_line_prefix [of path "CHR '':'' # d # r"] by simp
  have "length p' \<le> length path"
    if a: "key = p' @ CHR '':'' # d' # r'" "is_digit d'" "CHR 0x0A \<notin> set p'" for p' d' r'
  proof -
    have "length p' \<le> ?k" using a(1,3) first_line_prefix [of p' "CHR '':'' # d' # r'"] by simp
    with a h(6) show ?thesis by blast
  qed
  with h nl show ?thesis by (intro exI [of _ d] exI [of _ r]) auto
qed

lemma match_None_iff:
  "pattern_filename_line_match key = None
     \<longleftrightarrow> \<not> (\<exists>p d r. key = p @ CHR '':'' # d # r \<and> is_digit d \<and> p \<noteq> [] \<and> CHR 0x0A \<notin> set p)"
proof
  let ?k = "length (takeWhile (\<lambda>c. c \<noteq> CHR 0x0A) key)"
  assume "pattern_filename_line_match key = None"
  then have n: "backtrack key ?k = None" by (simp add: pattern_filename_line_match_def)
  show "\<not> (\<exists>p d r. key = p @ CHR '':'' # d # r \<and> is_digit d \<and> p \<noteq> [] \<and> CHR 0x0A \<notin> set p)"
  proof
    assume "\<exists>p d r. key = p @ CHR '':'' # d # r \<and> is_digit d \<and> p \<noteq> [] \<and> CHR 0x0A \<notin> set p"
    then obtain p d r where a: "key = p @ CHR '':'' # d # r" "is_digit d" "p \<noteq> []" "CHR 0x0A \<notin> set p"
      by blast
    have "length p \<le> ?k" using a(1,4) first_line_prefix [of p "CHR '':'' # d # r"] by simp
    with a backtrack_None [OF n] show False by blast
  qed
next
  assume a: "\<not> (\<exists>p d r. key = p @ CHR '':'' # d # r \<and> is_digit d \<and> p \<noteq> [] \<and> CHR 0x0A \<notin> set p)"
  show "pattern_filename_line_match key = None"
  proof (cases "pattern_filename_line_match key")
    case None
    then show ?thesis .
  next
    case (Some pl)
    then obtain path line where "pattern_filename_line_match key = Some (path, line)"
      by (cases pl) auto
    from match_Some [OF this] a show ?thesis by blast
  qed
qed

lemma digit_not_colon: "is_digit c \<Longrightarrow> c \<noteq> CHR '':''"
  by (auto simp: is_digit_def)

lemma spec_location_key_Some:
  assumes "spec_location_key key = Some (p, l)"
  shows "key = p @ CHR '':'' # l \<and> p \<noteq> [] \<and> l \<noteq> [] \<and> list_all is_digit l"
proof -
  let ?line = "rev (takeWhile is_digit (rev key))"
  let ?before = "rev (dropWhile is_digit (rev key))"
  from assms have h: "?line \<noteq> []" "?before \<noteq> []" "last ?before = CHR '':''" "butlast ?before \<noteq> []"
      "p = butlast ?before" "l = ?line"
    by (auto simp: spec_location_key_def Let_def split: if_splits)
  have "?before @ ?line = rev (rev key)"
    by (simp only: rev_append [symmetric] takeWhile_dropWhile_id)
  then have 1: "key = ?before @ ?line" by simp
  have 2: "?before = p @ [CHR '':'']"
    using append_butlast_last_id [OF h(2)] h(3,5) by simp
  have 3: "list_all is_digit ?line"
    by (auto simp: list_all_iff dest: set_takeWhileD)
  have "key = (p @ [CHR '':'']) @ l" using 1 2 h(6) by simp
  then have 4: "key = p @ CHR '':'' # l" by simp
  have 5: "p \<noteq> []" unfolding h(5) by (rule h(4))
  have 6: "l \<noteq> []" unfolding h(6) by (rule h(1))
  have 7: "list_all is_digit l" unfolding h(6) by (rule 3)
  from 4 5 6 7 show ?thesis by blast
qed


lemma spec_key_matches:
  assumes "spec_location_key key = Some (p, l)" "CHR 0x0A \<notin> set key"
  shows "pattern_filename_line_match key = Some (p, l)"
proof -
  from spec_location_key_Some [OF assms(1)]
  have k: "key = p @ CHR '':'' # l" and p: "p \<noteq> []" and l: "l \<noteq> []" and dl: "list_all is_digit l"
    by blast+
  obtain d r where lr: "l = d # r" using l by (cases l) auto
  have d: "is_digit d" using dl lr by simp
  have nlp: "CHR 0x0A \<notin> set p" using assms(2) unfolding k by simp
  have k2: "key = p @ CHR '':'' # d # r" using k lr by simp
  have "pattern_filename_line_match key \<noteq> None"
    using match_None_iff [of key] k2 d p nlp by blast
  then obtain p' l' where m: "pattern_filename_line_match key = Some (p', l')" by auto
  from match_Some [OF m] obtain d' r' where
    h: "key = p' @ CHR '':'' # d' # r'" "l' = takeWhile is_digit (d' # r')"
       "\<forall>q e t. key = q @ CHR '':'' # e # t \<and> is_digit e \<and> CHR 0x0A \<notin> set q
                  \<longrightarrow> length q \<le> length p'"
    by blast
  have le: "length p \<le> length p'" using h(3) k2 d nlp by blast
  have ge: "length p' \<le> length p"
  proof (rule ccontr)
    assume "\<not> length p' \<le> length p"
    then have lt: "length p < length p'" by simp
    have e: "p @ CHR '':'' # l = p' @ CHR '':'' # d' # r'" using k h(1) by simp
    have "(p' @ CHR '':'' # d' # r') ! length p' = CHR '':''" by (simp add: nth_append)
    then have c: "(p @ CHR '':'' # l) ! length p' = CHR '':''" by (simp only: e)
    have "length p' < length (p' @ CHR '':'' # d' # r')" by simp
    then have b: "length p' < length (p @ CHR '':'' # l)" by (simp only: e)
    from c lt have "l ! (length p' - length p - 1) = CHR '':''"
      by (simp add: nth_append nth_Cons')
    moreover from b lt have "length p' - length p - 1 < length l" by simp
    ultimately have "CHR '':'' \<in> set l" by (metis nth_mem)
    with dl digit_not_colon show False by (auto simp: list_all_iff)
  qed
  from le ge have "length p' = length p" by simp
  with k h(1) have pe: "p' = p" and re: "d' # r' = l" by auto
  have "takeWhile is_digit l = l"
    using dl by (simp add: list_all_iff takeWhile_eq_all_conv)
  then have "l' = l" using h(2) by (simp only: re)
  with m pe show ?thesis by simp
qed

lemma add_comments_loop_skip:
  "pattern_filename_line_match key = None \<or> content = JStr [] \<Longrightarrow>
     add_comments_loop w c pr ((key, content) # items) fs n = add_comments_loop w c pr items fs n"
proof (cases "pattern_filename_line_match key")
  case None
  then show ?thesis by simp
next
  case (Some pl)
  moreover assume "pattern_filename_line_match key = None \<or> content = JStr []"
  ultimately have "content = JStr []" by simp
  with Some show ?thesis by (cases pl) (simp add: lift_def io_bind_def)
qed

subsection \<open>C3: which suggestion keys are accepted\<close>

text \<open>
  Claim C3, as amended. Each key is matched from its start, without an anchor at its
  end, against \<open><path>:<digits>\<close>: a key matches when some colon that follows a
  non-empty text free of line feeds is directly followed by a digit; the path is
  everything before the last such colon, the line is the run of digits behind it, and
  whatever follows the digits is ignored. A key written exactly as \<open><path>:<line>\<close>
  (one or more digits, no line feed) parses to that path and line. Every entry whose key
  does not match, or whose feedback body is empty, is silently skipped: no comment is
  published, nothing is counted, no error is raised. In particular \<open>src/app.py:42\<close>
  parses to path \<open>src/app.py\<close> and line 42, while \<open>src/app.py\<close> and
  \<open>src/app.py:abc\<close> do not match and are skipped.
\<close>

theorem location_key_match:
  "(pattern_filename_line_match key = Some (path, line) \<longrightarrow>
      (\<exists>d r. key = path @ CHR '':'' # d # r \<and> is_digit d \<and> path \<noteq> [] \<and> CHR 0x0A \<notin> set path
         \<and> line = takeWhile is_digit (d # r)
         \<and> (\<forall>p' d' r'. key = p' @ CHR '':'' # d' # r' \<and> is_digit d' \<and> CHR 0x0A \<notin> set p'
               \<longrightarrow> length p' \<le> length path)))
   \<and> (pattern_filename_line_match key = None
        \<longleftrightarrow> \<not> (\<exists>p d r. key = p @ CHR '':'' # d # r \<and> is_digit d \<and> p \<noteq> [] \<and> CHR 0x0A \<notin> set p))
   \<and> (spec_location_key key = Some (path, line) \<and> CHR 0x0A \<notin> set key \<longrightarrow>
        pattern_filename_line_match key = Some (path, line))
   \<and> (pattern_filename_line_match key = None \<or> content = JStr [] \<longrightarrow>
        add_comments_loop w client pr ((key, content) # items) files n
          = add_comments_loop w client pr items files n)
   \<and> pattern_filename_line_match ''src/app.py:42'' = Some (''src/app.py'', ''42'')
   \<and> py_int 4300 ''42'' = Inr 42
   \<and> pattern_filename_line_match ''src/app.py'' = None
   \<and> pattern_filename_line_match ''src/app.py:abc'' = None"
proof -
  have 1: "pattern_filename_line_match ''src/app.py:42'' = Some (''src/app.py'', ''42'')"
    by code_simp
  have 2: "py_int 4300 ''42'' = Inr 42"
    by code_simp
  have 3: "pattern_filename_line_match ''src/app.py'' = None"
    by code_simp
  have 4: "pattern_filename_line_match ''src/app.py:abc'' = None"
    by code_simp
  have A: "pattern_filename_line_match key = Some (path, line) \<longrightarrow>
      (\<exists>d r. key = path @ CHR '':'' # d # r \<and> is_digit d \<and> path \<noteq> [] \<and> CHR 0x0A \<notin> set path
         \<and> line = takeWhile is_digit (d # r)
         \<and> (\<forall>p' d' r'. key = p' @ CHR '':'' # d' # r' \<and> is_digit d' \<and> CHR 0x0A \<notin> set p'
               \<longrightarrow> length p' \<le> length path))"
    by (rule impI) (rule match_Some)
  have B: "pattern_filename_line_match key = None
        \<longleftrightarrow> \<not> (\<exists>p d r. key = p @ CHR '':'' # d # r \<and> is_digit d \<and> p \<noteq> [] \<and> CHR 0x0A \<notin> set p)"
    by (rule match_None_iff)
  have C: "spec_location_key key = Some (path, line) \<and> CHR 0x0A \<notin> set key \<longrightarrow>
        pattern_filename_line_match key = Some (path, line)"
    using spec_key_matches [of key path line] by (intro impI) (elim conjE)
  have D: "pattern_filename_line_match key = None \<or> content = JStr [] \<longrightarrow>
        add_comments_loop w client pr ((key, content) # items) files n
          = add_comments_loop w client pr items files n"
    by (rule impI) (rule add_comments_loop_skip)
  show ?thesis
    by (intro conjI, rule A, rule B, rule C, rule D, rule 1, rule 2, rule 3, rule 4)
qed

theorem location_key_match_witness:
  "pattern_filename_line_match ''a:1:2x'' = Some (''a:1'', ''2'')
   \<and> (\<exists>d r. ''a:1:2x'' = ''a:1'' @ CHR '':'' # d # r \<and> is_digit d \<and> ''2'' = takeWhile is_digit (d # r))
   \<and> spec_location_key ''src/app.py:42'' = Some (''src/app.py'', ''42'')
   \<and> CHR 0x0A \<notin> set ''src/app.py:42''
   \<and> pattern_filename_line_match ''src/app.py:42'' = Some (''src/app.py'', ''42'')
   \<and> pattern_filename_line_match ''src/app.py'' = None
   \<and> add_comments_loop (example_world [] 10 JNull) (bitbucket_client example_pipe) ''7''
         [(''src/app.py'', JStr ''fix this''), (''b.py:2'', JStr [])] [] 0
       = (Inr ([], 0), [])"
proof -
  let ?w = "example_world [] 10 JNull" and ?c = "bitbucket_client example_pipe"
  have m: "pattern_filename_line_match ''a:1:2x'' = Some (''a:1'', ''2'')"
    by code_simp
  have s: "spec_location_key ''src/app.py:42'' = Some (''src/app.py'', ''42'')"
    by code_simp
  have nl: "CHR 0x0A \<notin> set ''src/app.py:42''" by simp
  have n: "pattern_filename_line_match ''src/app.py'' = None"
    by code_simp
  have a: "\<exists>d r. ''a:1:2x'' = ''a:1'' @ CHR '':'' # d # r \<and> is_digit d \<and> ''2'' = takeWhile is_digit (d # r)"
    using location_key_match [of "''a:1:2x''" "''a:1''" "''2''", THEN conjunct1] m by blast
  have b: "pattern_filename_line_match ''src/app.py:42'' = Some (''src/app.py'', ''42'')"
    using location_key_match [of "''src/app.py:42''" "''src/app.py''" "''42''",
            THEN conjunct2, THEN conjunct2, THEN conjunct1] s nl by blast
  have "add_comments_loop ?w ?c ''7'' [(''src/app.py'', JStr ''fix this''), (''b.py:2'', JStr [])] [] 0
        = add_comments_loop ?w ?c ''7'' [(''b.py:2'', JStr [])] [] 0"
    using location_key_match [of "''src/app.py''" _ _ "JStr ''fix this''" ?w ?c "''7''"
            "[(''b.py:2'', JStr [])]" "[]" 0,
            THEN conjunct2, THEN conjunct2, THEN conjunct2, THEN conjunct1] n
    by blast
  also have "\<dots> = add_comments_loop ?w ?c ''7'' [] [] 0"
    using location_key_match [of "''b.py:2''" _ _ "JStr []" ?w ?c "''7''" "[]" "[]" 0,
            THEN conjunct2, THEN conjunct2, THEN conjunct2, THEN conjunct1]
    by blast
  also have "\<dots> = (Inr ([], 0), [])" by (simp add: ret_def)
  finally have c: "add_comments_loop ?w ?c ''7''
         [(''src/app.py'', JStr ''fix this''), (''b.py:2'', JStr [])] [] 0 = (Inr ([], 0), [])" .
  show ?thesis
    by (intro conjI, rule m, rule a, rule s, rule nl, rule b, rule n, rule c)
qed

text \<open>
  The claim as stated fails: the key \<open>a.py:12abc\<close> is not of the form
  \<open><path>:<line>\<close> with a line of digits, yet it is not skipped: a comment is published
  at line 12 of \<open>a.py\<close> and counted.
\<close>

theorem trailing_text_key_is_published:
  "spec_location_key ''a.py:12abc'' = None
   \<and> add_comments (example_world [] 10 JNull) example_pipe ''7''
         (JObj [(''a.py:12abc'', JStr ''fix this'')])
       = (Inr ({''a.py''}, 1),
          [HttpPost ''https://api.bitbucket.org/2.0/repositories/ws/repo/pullrequests/7/comments''
             (InlineComment 12 ''a.py'' (JStr ''fix this''))])"
  by (simp add: spec_location_key_def pipe_defs py_defs example_defs io_defs)

lemma add_comments_loop_Inr:
  "add_comments_loop w c pr items fs n = (Inr (fs', n'), t) \<Longrightarrow>
     list_all (accepted_post w (auth c)) t \<and> fs' = fs @ inline_paths t \<and> n' = n + length t
       \<and> length (inline_paths t) = length t"
proof (induction items arbitrary: fs n t)
  case Nil
  then show ?case by (simp add: ret_def)
next
  case (Cons item items)
  obtain key content where item: "item = (key, content)" by (cases item)
  show ?case
  proof (cases "pattern_filename_line_match key")
    case None
    with Cons.prems item have "add_comments_loop w c pr items fs n = (Inr (fs', n'), t)" by simp
    then show ?thesis by (rule Cons.IH)
  next
    case (Some pl)
    obtain filename line where pl: "pl = (filename, line)" by (cases pl)
    from Cons.prems item Some pl obtain k where k: "py_len content = Inr k"
      by (cases "py_len content") (auto simp: io_bind_def lift_def)
    show ?thesis
    proof (cases "k = 0")
      case True
      with Cons.prems item Some pl k
      have "add_comments_loop w c pr items fs n = (Inr (fs', n'), t)"
        by (simp add: io_bind_def lift_def)
      then show ?thesis by (rule Cons.IH)
    next
      case False
      from Cons.prems item Some pl k False obtain to
        where to: "py_int (int_max_str_digits w) line = Inr to"
        by (cases "py_int (int_max_str_digits w) line") (auto simp: io_bind_def lift_def)
      let ?p = "InlineComment to filename content"
      let ?ev = "HttpPost (comments_url c pr) ?p"
      from Cons.prems item Some pl k False to
      have post: "http_post w (auth c) (comments_url c pr) ?p = Inr ()"
        by (cases "http_post w (auth c) (comments_url c pr) ?p")
           (auto simp: io_bind_def lift_def add_comment_eq)
      obtain r t' where rest: "add_comments_loop w c pr items (fs @ [filename]) (n + 1) = (r, t')"
        by (cases "add_comments_loop w c pr items (fs @ [filename]) (n + 1)")
      from Cons.prems item Some pl k False to post rest
      have "r = Inr (fs', n')" and t: "t = ?ev # t'"
        by (auto simp: io_bind_def lift_def add_comment_eq)
      with rest have "add_comments_loop w c pr items (fs @ [filename]) (n + 1) = (Inr (fs', n'), t')"
        by simp
      from Cons.IH [OF this] t post show ?thesis by simp
    qed
  qed
qed

lemma digit_not_space: "is_digit c \<Longrightarrow> \<not> is_space c"
  by (auto simp: is_digit_def is_space_def Let_def)

lemma digit_not_sign: "is_digit c \<Longrightarrow> c \<noteq> CHR ''-'' \<and> c \<noteq> CHR ''+'' \<and> c \<noteq> CHR ''_''"
  by (auto simp: is_digit_def)

lemma valid_digits_all: "l \<noteq> [] \<Longrightarrow> list_all is_digit l \<Longrightarrow> valid_digits l"
  by (induction l rule: valid_digits.induct) (auto dest: digit_not_sign)

lemma dropWhile_hd: "xs \<noteq> [] \<Longrightarrow> \<not> P (hd xs) \<Longrightarrow> dropWhile P xs = xs"
  by (cases xs) auto

lemma strip_digits:
  assumes "l \<noteq> []" "list_all is_digit l"
  shows "strip l = l"
proof -
  have "is_digit (hd (rev l))" "is_digit (hd l)"
    using assms by (auto simp: list_all_iff hd_rev)
  then have "\<not> is_space (hd (rev l))" "\<not> is_space (hd l)"
    by (auto dest: digit_not_space)
  then show ?thesis using assms(1) by (simp add: strip_def dropWhile_hd)
qed

lemma py_int_digits:
  assumes "l \<noteq> []" "list_all is_digit l" "limit = 0 \<or> length l \<le> limit"
  shows "py_int limit l = Inr (int (decimal l))"
proof -
  obtain d r where l: "l = d # r" using assms(1) by (cases l) auto
  have d: "is_digit d" using assms(2) l by simp
  have f: "filter is_digit l = l" using assms(2) by (simp add: list_all_iff)
  have s: "strip l = l" using assms(1,2) by (rule strip_digits)
  have v: "valid_digits l" using assms(1,2) by (rule valid_digits_all)
  show ?thesis
    unfolding py_int_def s Let_def
    using d digit_not_sign [OF d] v f assms(3) by (auto simp: l)
qed

lemma add_comments_loop_total:
  assumes "\<And>a u p. http_post w a u p = Inr ()"
    and "list_all (\<lambda>(k, v). is_JStr v \<and> (int_max_str_digits w = 0 \<or> length k \<le> int_max_str_digits w)) items"
  shows "\<exists>r t. add_comments_loop w c pr items fs n = (Inr r, t)"
  using assms(2)
proof (induction items arbitrary: fs n)
  case Nil
  then show ?case by (simp add: ret_def)
next
  case (Cons item items)
  obtain key content where item: "item = (key, content)" by (cases item)
  from Cons.prems item obtain s where content: "content = JStr s"
    by (cases content) auto
  have lim: "int_max_str_digits w = 0 \<or> length key \<le> int_max_str_digits w"
    using Cons.prems item by simp
  have rest: "\<exists>r t. add_comments_loop w c pr items fs' n' = (Inr r, t)" for fs' n'
    using Cons.prems by (intro Cons.IH) simp
  show ?case
  proof (cases "pattern_filename_line_match key")
    case None
    with item rest [of fs n] show ?thesis by simp
  next
    case (Some pl)
    obtain filename line where pl: "pl = (filename, line)" by (cases pl)
    show ?thesis
    proof (cases "s = []")
      case True
      with item Some pl content rest [of fs n] show ?thesis
        by (simp add: io_bind_def lift_def)
    next
      case False
      from match_Some [of key filename line] Some pl obtain d r where
        h: "key = filename @ CHR '':'' # d # r" "is_digit d" "line = takeWhile is_digit (d # r)"
        by blast
      have l1: "line \<noteq> []" using h(2,3) by simp
      have l2: "list_all is_digit line" unfolding h(3) by (auto simp: list_all_iff dest: set_takeWhileD)
      have "length line \<le> length (d # r)" unfolding h(3) by (rule length_takeWhile_le)
      also have "\<dots> \<le> length key" unfolding h(1) by simp
      finally have l3: "int_max_str_digits w = 0 \<or> length line \<le> int_max_str_digits w"
        using lim by auto
      have to: "py_int (int_max_str_digits w) line = Inr (int (decimal line))"
        using l1 l2 l3 by (rule py_int_digits)
      obtain r' t' where "add_comments_loop w c pr items (fs @ [filename]) (n + 1) = (Inr r', t')"
        using rest [of "fs @ [filename]" "n + 1"] by blast
      with item Some pl content False to assms(1) show ?thesis
        by (simp add: io_bind_def lift_def add_comment_eq)
    qed
  qed
qed

subsection \<open>C9: what the comment publisher reports\<close>

text \<open>
  Claim C9. For every suggestions mapping, when the comment publisher returns, it
  returns the set of distinct paths that received inline comments and the count of the
  comments actually published (each request in its trace is an accepted inline comment);
  and it does return for every mapping of keys to strings when the comment sink accepts
  every request. For the suggestions \<open>{"a.py:1": "fix this", "b.py:2": ""}\<close> exactly one
  inline comment is published, for \<open>a.py:1\<close>, and the result is the set \<open>{"a.py"}\<close> with
  count 1.
\<close>

theorem add_comments_reports:
  "(add_comments w self pr data = (Inr (files, n), t) \<longrightarrow>
      list_all (accepted_post w (auth (bitbucket_client self))) t
      \<and> length (inline_paths t) = length t
      \<and> files = set (inline_paths t) \<and> n = length t)
   \<and> ((\<forall>a u p. http_post w a u p = Inr ())
        \<and> list_all (\<lambda>(k, v). is_JStr v
                       \<and> (int_max_str_digits w = 0 \<or> length k \<le> int_max_str_digits w)) kvs \<longrightarrow>
        (\<exists>files n t. add_comments w self pr (JObj kvs) = (Inr (files, n), t)))
   \<and> add_comments (example_world [] 10 JNull) example_pipe ''7''
         (JObj [(''a.py:1'', JStr ''fix this''), (''b.py:2'', JStr [])])
       = (Inr ({''a.py''}, 1),
          [HttpPost ''https://api.bitbucket.org/2.0/repositories/ws/repo/pullrequests/7/comments''
             (InlineComment 1 ''a.py'' (JStr ''fix this''))])"
proof -
  have A: "add_comments w self pr data = (Inr (files, n), t) \<longrightarrow>
      list_all (accepted_post w (auth (bitbucket_client self))) t
      \<and> length (inline_paths t) = length t
      \<and> files = set (inline_paths t) \<and> n = length t"
  proof
    assume a: "add_comments w self pr data = (Inr (files, n), t)"
    then obtain items where items: "py_items data = Inr items"
      by (cases "py_items data") (auto simp: add_comments_def io_bind_def lift_def)
    obtain r t' where l: "add_comments_loop w (bitbucket_client self) pr items [] 0 = (r, t')"
      by (cases "add_comments_loop w (bitbucket_client self) pr items [] 0")
    from a items l obtain fs where "r = Inr (fs, n)" "files = set fs" "t = t'"
      by (cases r) (auto simp: add_comments_def io_bind_def lift_def ret_def split: prod.splits)
    with l add_comments_loop_Inr [of w "bitbucket_client self" pr items "[]" 0 fs n t]
    show "list_all (accepted_post w (auth (bitbucket_client self))) t
      \<and> length (inline_paths t) = length t
      \<and> files = set (inline_paths t) \<and> n = length t"
      by simp
  qed
  have B: "(\<forall>a u p. http_post w a u p = Inr ())
        \<and> list_all (\<lambda>(k, v). is_JStr v
                       \<and> (int_max_str_digits w = 0 \<or> length k \<le> int_max_str_digits w)) kvs \<longrightarrow>
        (\<exists>files n t. add_comments w self pr (JObj kvs) = (Inr (files, n), t))"
  proof
    assume h: "(\<forall>a u p. http_post w a u p = Inr ())
        \<and> list_all (\<lambda>(k, v). is_JStr v
                       \<and> (int_max_str_digits w = 0 \<or> length k \<le> int_max_str_digits w)) kvs"
    then obtain r t where "add_comments_loop w (bitbucket_client self) pr kvs [] 0 = (Inr r, t)"
      using add_comments_loop_total [of w kvs "bitbucket_client self" pr "[]" 0] by blast
    then show "\<exists>files n t. add_comments w self pr (JObj kvs) = (Inr (files, n), t)"
      by (cases r) (simp add: add_comments_def io_bind_def lift_def ret_def)
  qed
  have C: "add_comments (example_world [] 10 JNull) example_pipe ''7''
         (JObj [(''a.py:1'', JStr ''fix this''), (''b.py:2'', JStr [])])
       = (Inr ({''a.py''}, 1),
          [HttpPost ''https://api.bitbucket.org/2.0/repositories/ws/repo/pullrequests/7/comments''
             (InlineComment 1 ''a.py'' (JStr ''fix this''))])"
    by (simp add: pipe_defs py_defs example_defs io_defs)
  show ?thesis by (intro conjI, rule A, rule B, rule C)
qed

theorem add_comments_reports_witness:
  "add_comments (example_world [] 10 JNull) example_pipe ''7''
      (JObj [(''a.py:1'', JStr ''first''), (''a.py:2'', JStr ''second''), (''c.py'', JStr ''lost'')])
     = (Inr ({''a.py''}, 2),
        [HttpPost ''https://api.bitbucket.org/2.0/repositories/ws/repo/pullrequests/7/comments''
           (InlineComment 1 ''a.py'' (JStr ''first'')),
         HttpPost ''https://api.bitbucket.org/2.0/repositories/ws/repo/pullrequests/7/comments''
           (InlineComment 2 ''a.py'' (JStr ''second''))])
   \<and> {''a.py''} = set (inline_paths
        [HttpPost ''https://api.bitbucket.org/2.0/repositories/ws/repo/pullrequests/7/comments''
           (InlineComment 1 ''a.py'' (JStr ''first'')),
         HttpPost ''https://api.bitbucket.org/2.0/repositories/ws/repo/pullrequests/7/comments''
           (InlineComment 2 ''a.py'' (JStr ''second''))])
   \<and> (\<forall>a u p. http_post (example_world [] 10 JNull) a u p = Inr ())
   \<and> list_all (\<lambda>(k, v). is_JStr v \<and> (int_max_str_digits (example_world [] 10 JNull) = 0
                  \<or> length k \<le> int_max_str_digits (example_world [] 10 JNull)))
        [(''a.py:1'', JStr ''first''), (''a.py:2'', JStr ''second''), (''c.py'', JStr ''lost'')]
   \<and> (\<exists>files n t. add_comments (example_world [] 10 JNull) example_pipe ''7''
          (JObj [(''a.py:1'', JStr ''first''), (''a.py:2'', JStr ''second''), (''c.py'', JStr ''lost'')])
        = (Inr (files, n), t))"
proof -
  let ?w = "example_world [] 10 JNull"
  let ?kvs = "[(''a.py:1'', JStr ''first''), (''a.py:2'', JStr ''second''), (''c.py'', JStr ''lost'')]"
  let ?t = "[HttpPost ''https://api.bitbucket.org/2.0/repositories/ws/repo/pullrequests/7/comments''
           (InlineComment 1 ''a.py'' (JStr ''first'')),
         HttpPost ''https://api.bitbucket.org/2.0/repositories/ws/repo/pullrequests/7/comments''
           (InlineComment 2 ''a.py'' (JStr ''second''))]"
  have e: "add_comments ?w example_pipe ''7'' (JObj ?kvs) = (Inr ({''a.py''}, 2), ?t)"
    by (simp add: pipe_defs py_defs example_defs io_defs)
  have s: "{''a.py''} = set (inline_paths ?t)"
    using add_comments_reports [of ?w example_pipe "''7''" "JObj ?kvs" "{''a.py''}" 2 ?t, THEN conjunct1] e
    by blast
  have p: "\<forall>a u p. http_post ?w a u p = Inr ()" by (simp add: example_world_def)
  have l: "list_all (\<lambda>(k, v). is_JStr v \<and> (int_max_str_digits ?w = 0
                  \<or> length k \<le> int_max_str_digits ?w)) ?kvs"
    by (simp add: example_world_def)
  have x: "\<exists>files n t. add_comments ?w example_pipe ''7'' (JObj ?kvs) = (Inr (files, n), t)"
    using add_comments_reports [of ?w example_pipe "''7''" _ _ _ _ ?kvs, THEN conjunct2, THEN conjunct1] p l
    by blast
  show ?thesis by (intro conjI, rule e, rule s, rule p, rule l, rule x)
qed

section \<open>The run\<close>

lemma io_bind_trace: "\<exists>r t'. io_bind m f = (r, snd m @ t')"
  by (cases m) (auto simp: io_bind_def split: sum.splits prod.splits)

lemma main_without_auth:
  assumes "\<not> (truthy_opt (env ''BITBUCKET_USERNAME'') \<and> truthy_opt (env ''BITBUCKET_APP_PASSWORD''))"
    and "\<not> truthy_opt (env ''BITBUCKET_ACCESS_TOKEN'')"
  shows "main w env = (Inl ValueError, [])"
  using assms by (auto simp: main_def init_def resolve_auth_def io_bind_def lift_def)

lemma main_with_auth:
  assumes "resolve_auth env = Inr a"
  shows "\<exists>self. init env = Inr self \<and> main w env = run w env self
           \<and> workspace (bitbucket_client self) = env ''BITBUCKET_WORKSPACE''
           \<and> repo_slug (bitbucket_client self) = env ''BITBUCKET_REPO_SLUG''"
  using assms by (simp add: main_def init_def io_bind_def lift_def split: prod.splits)

lemma run_without_pr_id:
  "env ''BITBUCKET_PR_ID'' = None \<Longrightarrow> run w env self = (Inl EnvironmentError, [Log INFO ExecutingThePipe])"
  by (simp add: run_def io_bind_def emit_def raise_def)

lemma io_bind_emit_trace:
  "\<exists>r t. io_bind (emit ev) (\<lambda>_. io_bind m k) = (r, ev # snd m @ t)"
proof -
  obtain r t where "io_bind m k = (r, snd m @ t)" using io_bind_trace [of m k] by blast
  then show ?thesis by (simp add: io_bind_def emit_def)
qed

lemma run_first_events:
  assumes "env ''BITBUCKET_PR_ID'' = Some pr"
  shows "\<exists>r t. run w env self
           = (r, Log INFO ExecutingThePipe # HttpGet (diff_url (bitbucket_client self) pr) # t)"
proof -
  have "\<exists>r t. run w env self
          = (r, Log INFO ExecutingThePipe # snd (get_diffs_to_review w self pr) @ t)"
    unfolding run_def assms option.case by (rule io_bind_emit_trace)
  then show ?thesis by (simp add: get_diffs_to_review_trace)
qed

subsection \<open>C7: missing configuration\<close>

text \<open>
  Claim C7, as amended. For every run in which both Bitbucket authentication schemes are
  absent, or the pull-request identifier is unset, a fatal error is raised before any
  network call is made. An unset workspace identifier or repository slug raises no
  error: with credentials and a pull-request identifier present, the run goes on to the
  diff request, whose URL holds \<open>None\<close> in place of a value that is unset.
\<close>

theorem main_missing_configuration:
  "(\<not> (truthy_opt (env ''BITBUCKET_USERNAME'') \<and> truthy_opt (env ''BITBUCKET_APP_PASSWORD''))
      \<and> \<not> truthy_opt (env ''BITBUCKET_ACCESS_TOKEN'') \<longrightarrow>
      main w env = (Inl ValueError, []))
   \<and> (resolve_auth env = Inr a \<and> env ''BITBUCKET_PR_ID'' = None \<longrightarrow>
        main w env = (Inl EnvironmentError, [Log INFO ExecutingThePipe]))
   \<and> (resolve_auth env = Inr a \<and> env ''BITBUCKET_PR_ID'' = Some pr \<longrightarrow>
        (\<exists>r t. main w env
           = (r, Log INFO ExecutingThePipe
                 # HttpGet (BITBUCKET_API_BASE_URL @ ''/repositories/''
                            @ fmt (env ''BITBUCKET_WORKSPACE'') @ ''/''
                            @ fmt (env ''BITBUCKET_REPO_SLUG'') @ ''/pullrequests/'' @ pr @ ''/diff'')
                 # t)))"
proof -
  have A: "\<not> (truthy_opt (env ''BITBUCKET_USERNAME'') \<and> truthy_opt (env ''BITBUCKET_APP_PASSWORD''))
      \<and> \<not> truthy_opt (env ''BITBUCKET_ACCESS_TOKEN'') \<longrightarrow>
      main w env = (Inl ValueError, [])"
    using main_without_auth [of env w] by blast
  have B: "resolve_auth env = Inr a \<and> env ''BITBUCKET_PR_ID'' = None \<longrightarrow>
        main w env = (Inl EnvironmentError, [Log INFO ExecutingThePipe])"
  proof
    assume h: "resolve_auth env = Inr a \<and> env ''BITBUCKET_PR_ID'' = None"
    then obtain self where "main w env = run w env self"
      using main_with_auth [of env a w] by blast
    with h show "main w env = (Inl EnvironmentError, [Log INFO ExecutingThePipe])"
      by (simp add: run_without_pr_id)
  qed
  have C: "resolve_auth env = Inr a \<and> env ''BITBUCKET_PR_ID'' = Some pr \<longrightarrow>
        (\<exists>r t. main w env
           = (r, Log INFO ExecutingThePipe
                 # HttpGet (BITBUCKET_API_BASE_URL @ ''/repositories/''
                            @ fmt (env ''BITBUCKET_WORKSPACE'') @ ''/''
                            @ fmt (env ''BITBUCKET_REPO_SLUG'') @ ''/pullrequests/'' @ pr @ ''/diff'')
                 # t))"
  proof
    assume h: "resolve_auth env = Inr a \<and> env ''BITBUCKET_PR_ID'' = Some pr"
    then obtain self where s: "main w env = run w env self"
        "workspace (bitbucket_client self) = env ''BITBUCKET_WORKSPACE''"
        "repo_slug (bitbucket_client self) = env ''BITBUCKET_REPO_SLUG''"
      using main_with_auth [of env a w] by blast
    from h run_first_events [of env pr w self] obtain r t where
      "run w env self
         = (r, Log INFO ExecutingThePipe # HttpGet (diff_url (bitbucket_client self) pr) # t)"
      by blast
    with s show "\<exists>r t. main w env
           = (r, Log INFO ExecutingThePipe
                 # HttpGet (BITBUCKET_API_BASE_URL @ ''/repositories/''
                            @ fmt (env ''BITBUCKET_WORKSPACE'') @ ''/''
                            @ fmt (env ''BITBUCKET_REPO_SLUG'') @ ''/pullrequests/'' @ pr @ ''/diff'')
                 # t)"
      by (simp add: diff_url_def)
  qed
  show ?thesis by (intro conjI, rule A, rule B, rule C)
qed

theorem main_missing_configuration_witness:
  "\<not> (truthy_opt (Map.empty ''BITBUCKET_USERNAME'') \<and> truthy_opt (Map.empty ''BITBUCKET_APP_PASSWORD''))
   \<and> \<not> truthy_opt (Map.empty ''BITBUCKET_ACCESS_TOKEN'')
   \<and> main (example_world two_file_diff 10 JNull) Map.empty = (Inl ValueError, [])
   \<and> resolve_auth (example_env(''BITBUCKET_PR_ID'' := None)) = Inr (TokenAuth ''secret'')
   \<and> (example_env(''BITBUCKET_PR_ID'' := None)) ''BITBUCKET_PR_ID'' = None
   \<and> main (example_world two_file_diff 10 JNull) (example_env(''BITBUCKET_PR_ID'' := None))
       = (Inl EnvironmentError, [Log INFO ExecutingThePipe])
   \<and> resolve_auth example_env = Inr (TokenAuth ''secret'')
   \<and> example_env ''BITBUCKET_PR_ID'' = Some ''7''
   \<and> (\<exists>r t. main (example_world two_file_diff 10 JNull) example_env
         = (r, Log INFO ExecutingThePipe
               # HttpGet ''https://api.bitbucket.org/2.0/repositories/ws/repo/pullrequests/7/diff''
               # t))"
proof -
  let ?w = "example_world two_file_diff 10 JNull"
  let ?e = "example_env(''BITBUCKET_PR_ID'' := None)"
  have a1: "\<not> (truthy_opt (Map.empty ''BITBUCKET_USERNAME'') \<and> truthy_opt (Map.empty ''BITBUCKET_APP_PASSWORD''))"
    by simp
  have a2: "\<not> truthy_opt (Map.empty ''BITBUCKET_ACCESS_TOKEN'')" by simp
  have a3: "main ?w Map.empty = (Inl ValueError, [])"
    using main_missing_configuration [of Map.empty ?w, THEN conjunct1] a1 a2 by blast
  have b1: "resolve_auth ?e = Inr (TokenAuth ''secret'')"
    by (simp add: resolve_auth_def example_env_def)
  have b2: "?e ''BITBUCKET_PR_ID'' = None" by simp
  have b3: "main ?w ?e = (Inl EnvironmentError, [Log INFO ExecutingThePipe])"
    using main_missing_configuration [of ?e ?w "TokenAuth ''secret''", THEN conjunct2, THEN conjunct1]
      b1 b2 by blast
  have c1: "resolve_auth example_env = Inr (TokenAuth ''secret'')"
    by (simp add: resolve_auth_def example_env_def)
  have c2: "example_env ''BITBUCKET_PR_ID'' = Some ''7''" by (simp add: example_env_def)
  have u: "BITBUCKET_API_BASE_URL @ ''/repositories/'' @ fmt (example_env ''BITBUCKET_WORKSPACE'')
             @ ''/'' @ fmt (example_env ''BITBUCKET_REPO_SLUG'') @ ''/pullrequests/'' @ ''7'' @ ''/diff''
           = ''https://api.bitbucket.org/2.0/repositories/ws/repo/pullrequests/7/diff''"
    by (simp add: BITBUCKET_API_BASE_URL_def example_env_def)
  have c3: "\<exists>r t. main ?w example_env
         = (r, Log INFO ExecutingThePipe
               # HttpGet ''https://api.bitbucket.org/2.0/repositories/ws/repo/pullrequests/7/diff''
               # t)"
    using main_missing_configuration
            [of example_env ?w "TokenAuth ''secret''" "''7''", THEN conjunct2, THEN conjunct2] c1 c2
    unfolding u by blast
  show ?thesis
    by (intro conjI, rule a1, rule a2, rule a3, rule b1, rule b2, rule b3, rule c1, rule c2, rule c3)
qed

text \<open>
  The claim as stated fails: with the workspace identifier unset no error is raised
  before the network is used; the diff is requested under the workspace \<open>None\<close> and the
  run goes on to its end.
\<close>

theorem unset_workspace_is_requested:
  "(example_env(''BITBUCKET_WORKSPACE'' := None)) ''BITBUCKET_WORKSPACE'' = None
   \<and> fst (main (example_world two_file_diff 10 (JObj [(''suggestions'', JObj [])]))
            (example_env(''BITBUCKET_WORKSPACE'' := None))) = Inr ()
   \<and> take 2 (snd (main (example_world two_file_diff 10 (JObj [(''suggestions'', JObj [])]))
                    (example_env(''BITBUCKET_WORKSPACE'' := None))))
       = [Log INFO ExecutingThePipe,
          HttpGet ''https://api.bitbucket.org/2.0/repositories/None/repo/pullrequests/7/diff'']"
  by (simp add: pipe_defs py_defs example_defs io_defs)

subsection \<open>C1: the token ceiling\<close>

text \<open>
  Claim C1, evaluated on the program. The ceiling is 3000 and the three messages count
  5000 tokens. The completion service is not called, no comment is posted and the warning
  is logged, as the claim says; but the run does not end successfully: \<open>get_code_review\<close>
  returns \<open>None\<close>, and \<open>run\<close> calls \<open>get\<close> on it, which raises \<open>AttributeError\<close>.
\<close>

theorem token_ceiling_exceeded_run:
  "main (example_world two_file_diff 831 (JObj [(''summary'', JStr ''Looks fine overall.'')]))
     (example_env(''CHATGPT_PROMPT_MAX_TOKENS'' \<mapsto> ''3000'', ''MESSAGE'' \<mapsto> ''Be brief.''))
   = (Inl AttributeError,
      [Log INFO ExecutingThePipe,
       HttpGet ''https://api.bitbucket.org/2.0/repositories/ws/repo/pullrequests/7/diff'',
       Log INFO (FilesWithDiffsCount 2 {''a.py'', ''b.py''}),
       Log WARNING (TokensMoreThenAllowed 5000 3000),
       Log INFO PipeIsStopped])"
  by (simp add: pipe_defs py_defs example_defs io_defs)

subsection \<open>C6: absent fields of the reply\<close>

text \<open>
  Claim C6, evaluated on the program. A reply without \<open>summary\<close> and with empty
  \<open>suggestions\<close> is handled as the claim says: the run completes and posts nothing. A
  reply without \<open>suggestions\<close> is not: the summary is posted, then \<open>add_comments\<close> calls
  \<open>items\<close> on \<open>None\<close> and the run ends in \<open>AttributeError\<close>.
\<close>

theorem absent_suggestions_run:
  "fst (main (example_world two_file_diff 10 (JObj [(''summary'', JStr ''Looks fine overall.'')]))
          example_env) = Inl AttributeError
   \<and> filter is_comment_post
        (snd (main (example_world two_file_diff 10 (JObj [(''summary'', JStr ''Looks fine overall.'')]))
                example_env))
       = [HttpPost ''https://api.bitbucket.org/2.0/repositories/ws/repo/pullrequests/7/comments''
            (SummaryComment (JStr ''Looks fine overall.''))]
   \<and> fst (main (example_world two_file_diff 10 (JObj [(''suggestions'', JObj [])])) example_env)
       = Inr ()
   \<and> filter is_comment_post
        (snd (main (example_world two_file_diff 10 (JObj [(''suggestions'', JObj [])])) example_env))
       = []"
  by (simp add: pipe_defs py_defs example_defs io_defs)

end
